theory Spec2Isabelle
  imports Main "HOL-Library.AList"
begin

section \<open>The root controller of the map-style editor (src/components/App.jsx)\<close>

text \<open>
  The component is a class with a state object, a props object and a revision store.
  Every method is modelled as a function on the record \<open>App\<close> of these three, together
  with the trace of the calls the method makes to its surroundings (host callbacks,
  downloads, fetches, the console) and whether the component is mounted. A method is an
  event handler that runs to its end:
  the state of the component it returns is the state with the handler's \<open>setState\<close>
  calls applied. A method that can throw returns an \<open>outcome\<close>: the component as the
  method left it, and the exception if one escaped. What React does after a handler
  (deriving the state from the props, rendering) is \<open>rerender\<close>; a handler followed by
  it is a \<open>step\<close> of the component.
\<close>

subsection \<open>Style documents\<close>

text \<open>
  A layer is an object with an \<open>id\<close> and further properties, which the controller
  copies but never reads.
\<close>

record layer =
  id_layer :: string
  rest_layer :: "(string \<times> string) list"

text \<open>
  A source of the style: \<open>type_src\<close> is \<open>val.type\<close>, \<open>url_src\<close> is \<open>Some u\<close> when
  \<open>val.hasOwnProperty("url")\<close> holds and \<open>val.url\<close> is \<open>u\<close>.
\<close>

record source =
  type_src :: string
  url_src :: "string option"

text \<open>
  The style document, with the fields the controller reads. \<open>glyphs\<close> and \<open>sprite\<close>
  are \<open>None\<close> when the property is undefined. \<open>sources_style\<close> is the object
  \<open>mapStyle.sources\<close> as \<open>Object.entries\<close> lists it; it is \<open>None\<close> for a document
  without that property, such as the one \<open>onLayersChange\<close> builds by spreading an
  undefined \<open>mapStyle\<close>.
\<close>

record style =
  glyphs :: "string option"
  sprite :: "string option"
  layers :: "layer list"
  sources_style :: "(string \<times> source) list option"

subsection \<open>What the component is given\<close>

text \<open>An error object of the style validator; the controller reads its \<open>message\<close>.\<close>

record verror =
  message :: string

text \<open>The object a \<open>transformRequest\<close> callback returns: \<open>req.url\<close> and the rest.\<close>

record request =
  url_req :: string
  headers_req :: "(string \<times> string) list"

text \<open>
  An object used as a dictionary is the list of its entries in insertion order, each
  key once: \<open>map_of\<close> reads a property, \<open>AList.update\<close> assigns one (in place when the
  key is there, at the end otherwise).

  The \<open>$root\<close> table of the style specification held in \<open>state.spec\<close>: for each root
  field the list under \<open>values\<close>. The other entries of the specification are copied
  unchanged by \<open>updateRootSpec\<close> and are not represented.
\<close>

type_synonym spec = "(string \<times> string list) list"

text \<open>
  The props: \<open>props.mapStyle\<close> (\<open>None\<close> for null) and \<open>props.transformRequest\<close>, whose
  result is \<open>None\<close> when it returns undefined. A call of the callback \<open>onSnapshotSave\<close>
  is recorded in the trace.
\<close>

record App_props =
  mapStyle_props :: "style option"
  transformRequest :: "string \<Rightarrow> request option"

text \<open>
  The imported libraries whose code is not part of the component, as parameters:
  \<open>validate\<close> is \<open>styleSpec.validate(_, styleSpec.latest)\<close>, \<open>latest\<close> is \<open>styleSpec.latest\<close>,
  \<open>undoMessages\<close> and \<open>redoMessages\<close> are those of libs/diffmessage. \<open>globals\<close> lists the
  identifiers the host's global object defines. \<open>batched\<close> says how React applies
  \<open>setState\<close>: batched, a handler keeps reading in \<open>this.state\<close> the state it started
  with until it returns; otherwise each \<open>setState\<close> is visible to the reads after it.
  \<open>derive_on_update\<close> is the React version: from React 16.4 on
  \<open>getDerivedStateFromProps\<close> is called before every render (\<open>True\<close>), in React 16.3
  only before the first render and a render that new props cause (\<open>False\<close>). The
  source uses \<open>getDerivedStateFromProps\<close>, which both have, and fixes neither.
\<close>

record env =
  validate :: "style \<Rightarrow> verror list"
  latest :: spec
  undoMessages :: "style option \<Rightarrow> style option \<Rightarrow> string list"
  redoMessages :: "style option \<Rightarrow> style option \<Rightarrow> string list"
  globals :: "string list"
  batched :: bool
  derive_on_update :: bool

subsection \<open>The component\<close>

text \<open>An entry of the source-metadata cache \<open>state.sources\<close>: \<open>{type, layers}\<close>.\<close>

record sourceInfo =
  type_info :: string
  layers_info :: "string list"

text \<open>
  \<open>this.state\<close>. \<open>mapStyle\<close> is \<open>None\<close> when the field holds undefined (the revision
  store can return that). \<open>selectedLayerIndex\<close> is \<open>None\<close> when \<open>indexOfLayer\<close> found
  no index. \<open>sources\<close> is the source-metadata cache, keyed by source name.
\<close>

record App_state =
  errors :: "string list"
  infos :: "string list"
  mapStyle :: "style option"
  selectedLayerIndex :: "nat option"
  sources :: "(string \<times> sourceInfo) list"
  vectorLayers :: "(string \<times> string list) list"
  inspectModeEnabled :: bool
  spec :: spec

text \<open>
  Modelled from the spec: the class \<open>RevisionStore\<close> of libs/revisions, which is not
  under src/. The spec calls it a "linear undo/redo snapshot stack over style documents"
  of "full-document snapshots with no merging, diffing-for-correctness, or conflict
  resolution": the snapshots in the order they were added, and the position of the
  current one (\<open>-1\<close> while there is none).
\<close>

record RevisionStore =
  revisions :: "style list"
  currentIdx :: int

text \<open>What a method does to its surroundings, in the order it happens.\<close>

datatype effect =
    SnapshotSave "style option"
  | UpdateFonts "string option"
  | UpdateIcons "string option"
  | Fetch string request
  | ConsoleDebug string
  | ConsoleError string

text \<open>
  The instance: \<open>this.props\<close>, \<open>this.state\<close>, \<open>this.revisionStore\<close>, the trace, and
  whether React has the component mounted.
\<close>

record App =
  props :: App_props
  state :: App_state
  revisionStore :: RevisionStore
  effects :: "effect list"
  mounted :: bool

datatype js_error = TypeError | ReferenceError

datatype outcome = Returns App | Throws js_error App

fun after :: "outcome \<Rightarrow> App" where
  "after (Returns w) = w"
| "after (Throws e w) = w"

fun thrown :: "outcome \<Rightarrow> js_error option" where
  "thrown (Returns w) = None"
| "thrown (Throws e w) = Some e"

subsection \<open>The revision store\<close>

text \<open>
  Modelled from the spec: \<open>new RevisionStore()\<close>, \<open>addRevision\<close>, \<open>undo\<close> and \<open>redo\<close> of
  libs/revisions (not under src/), read as the spec's linear undo/redo stack of
  snapshots: a new store holds no snapshot; \<open>addRevision\<close> puts the snapshot on top and
  makes it the current one; \<open>undo\<close> steps to the snapshot below the current one when
  there is one, \<open>redo\<close> to the one above; both return the snapshot that is current
  afterwards, which is undefined (\<open>None\<close>) while the store holds none.
\<close>

definition RevisionStore_new :: RevisionStore where
  "RevisionStore_new = \<lparr>revisions = [], currentIdx = - 1\<rparr>"

definition current :: "RevisionStore \<Rightarrow> style option" where
  "current r =
     (if 0 \<le> currentIdx r \<and> currentIdx r < int (length (revisions r))
      then Some (revisions r ! nat (currentIdx r)) else None)"

definition addRevision :: "RevisionStore \<Rightarrow> style \<Rightarrow> RevisionStore" where
  "addRevision r revision =
     \<lparr>revisions = revisions r @ [revision], currentIdx = int (length (revisions r))\<rparr>"

definition undo :: "RevisionStore \<Rightarrow> RevisionStore \<times> style option" where
  "undo r =
     (let r' = (if currentIdx r > 0 then r\<lparr>currentIdx := currentIdx r - 1\<rparr> else r)
      in (r', current r'))"

definition redo :: "RevisionStore \<Rightarrow> RevisionStore \<times> style option" where
  "redo r =
     (let r' = (if currentIdx r < int (length (revisions r)) - 1
                then r\<lparr>currentIdx := currentIdx r + 1\<rparr> else r)
      in (r', current r'))"

subsection \<open>Construction and props\<close>

text \<open>\<open>updateRootSpec(spec, fieldName, newValues)\<close>, lines 27-38.\<close>

definition updateRootSpec :: "spec \<Rightarrow> string \<Rightarrow> string list \<Rightarrow> spec" where
  "updateRootSpec sp fieldName newValues = AList.update fieldName newValues sp"

text \<open>
  The default of \<open>props.transformRequest\<close>, line 51: \<open>(url) => {url}\<close>. The braces are
  the body of the arrow function, a block whose only statement is the expression
  \<open>url\<close>; the function returns undefined.
\<close>

definition transformRequest_default :: "string \<Rightarrow> request option" where
  "transformRequest_default url = None"

text \<open>The constructor, lines 54-72.\<close>

definition constructor :: "env \<Rightarrow> App_props \<Rightarrow> App" where
  "constructor env p =
     \<lparr>props = p,
      state = \<lparr>errors = [], infos = [], mapStyle = mapStyle_props p,
               selectedLayerIndex = Some 0, sources = [], vectorLayers = [],
               inspectModeEnabled = False, spec = latest env\<rparr>,
      revisionStore = RevisionStore_new,
      effects = [], mounted = False\<rparr>"

text \<open>\<open>getDerivedStateFromProps({mapStyle}, prevState)\<close>, lines 74-76.\<close>

definition getDerivedStateFromProps :: "App_props \<Rightarrow> App_state \<Rightarrow> App_state" where
  "getDerivedStateFromProps p prevState = prevState\<lparr>mapStyle := mapStyle_props p\<rparr>"

text \<open>The component receives new props: React stores them and derives the state.\<close>

definition receiveProps :: "App_props \<Rightarrow> App \<Rightarrow> App" where
  "receiveProps p w = w\<lparr>props := p, state := getDerivedStateFromProps p (state w)\<rparr>"

subsection \<open>State updates and metadata\<close>

text \<open>
  \<open>this.setState(patch)\<close>: the patch is merged into the state the component will hold
  when the handler has returned. \<open>this_state\<close> is what a handler that started in the
  state \<open>entry\<close> reads in \<open>this.state\<close> after it has called \<open>setState\<close>.
\<close>

definition setState :: "(App_state \<Rightarrow> App_state) \<Rightarrow> App \<Rightarrow> App" where
  "setState patch w = w\<lparr>state := patch (state w)\<rparr>"

definition this_state :: "env \<Rightarrow> App_state \<Rightarrow> App \<Rightarrow> App_state" where
  "this_state env entry w = (if batched env then entry else state w)"

text \<open>\<open>saveStyle(snapshotStyle)\<close>, lines 88-90: the host's \<open>onSnapshotSave\<close> is called.\<close>

definition saveStyle :: "style option \<Rightarrow> App \<Rightarrow> App" where
  "saveStyle snapshotStyle w = w\<lparr>effects := effects w @ [SnapshotSave snapshotStyle]\<rparr>"

text \<open>
  \<open>updateFonts(urlTemplate)\<close> and \<open>updateIcons(baseUrl)\<close>, lines 92-106, start a download
  (libs/metadata) and change no state themselves; the trace records the call with its
  argument. The callback of the download is \<open>fontsLoaded\<close>, respectively \<open>iconsLoaded\<close>,
  and runs later, as an event of its own.
\<close>

definition updateFonts :: "string option \<Rightarrow> App \<Rightarrow> App" where
  "updateFonts urlTemplate w = w\<lparr>effects := effects w @ [UpdateFonts urlTemplate]\<rparr>"

definition updateIcons :: "string option \<Rightarrow> App \<Rightarrow> App" where
  "updateIcons baseUrl w = w\<lparr>effects := effects w @ [UpdateIcons baseUrl]\<rparr>"

definition fontsLoaded :: "string list \<Rightarrow> App \<Rightarrow> App" where
  "fontsLoaded fonts w =
     setState (\<lambda>s. s\<lparr>spec := updateRootSpec (spec (state w)) ''glyphs'' fonts\<rparr>) w"

definition iconsLoaded :: "string list \<Rightarrow> App \<Rightarrow> App" where
  "iconsLoaded icons w =
     setState (\<lambda>s. s\<lparr>spec := updateRootSpec (spec (state w)) ''sprite'' icons\<rparr>) w"

subsection \<open>fetchSources\<close>

text \<open>
  The two dictionaries of \<open>fetchSources\<close> are plain objects, and two names are not
  ordinary keys of a plain object. \<open>obj.hasOwnProperty(key)\<close> calls what the property
  \<open>hasOwnProperty\<close> of \<open>obj\<close> holds: the method of \<open>Object.prototype\<close>, unless \<open>obj\<close>
  has an entry of that name, which is no function, so that the call is a TypeError
  (\<open>shadowed\<close>). An assignment \<open>obj["__proto__"] = value\<close> sets the prototype of
  \<open>obj\<close> and adds no entry (\<open>assign\<close>).
\<close>

definition shadowed :: "(string \<times> 'a) list \<Rightarrow> bool" where
  "shadowed obj = (map_of obj ''hasOwnProperty'' \<noteq> None)"

definition assign :: "string \<Rightarrow> 'a \<Rightarrow> (string \<times> 'a) list \<Rightarrow> (string \<times> 'a) list" where
  "assign key v obj = (if key = ''__proto__'' then obj else AList.update key v obj)"

text \<open>
  The loop of \<open>fetchSources\<close>, lines 192-228, over the entries of \<open>mapStyle.sources\<close>.
  \<open>cache\<close> is \<open>this.state.sources\<close>, \<open>sourceList\<close> the copy being extended, \<open>fx\<close> the
  fetches started so far. \<open>req.url\<close> on an undefined \<open>req\<close> is a TypeError. An
  exception leaves the loop and the method; the fetches already started stay started.
\<close>

fun fetchSources_loop ::
  "(string \<Rightarrow> request option) \<Rightarrow> (string \<times> sourceInfo) list \<Rightarrow> (string \<times> source) list \<Rightarrow>
   (string \<times> sourceInfo) list \<Rightarrow> effect list \<Rightarrow>
   js_error option \<times> (string \<times> sourceInfo) list \<times> effect list" where
  "fetchSources_loop tr cache [] sourceList fx = (None, sourceList, fx)"
| "fetchSources_loop tr cache ((key, val) # entries) sourceList fx =
     (if shadowed sourceList then (Some TypeError, sourceList, fx)
      else if map_of sourceList key \<noteq> None then fetchSources_loop tr cache entries sourceList fx
      else
        let sourceList' =
              assign key \<lparr>type_info = type_src val, layers_info = []\<rparr> sourceList
        in if shadowed cache then (Some TypeError, sourceList', fx)
           else if map_of cache key = None \<and> type_src val = ''vector'' \<and> url_src val \<noteq> None
           then (case tr (the (url_src val)) of
                   None \<Rightarrow> (Some TypeError, sourceList', fx)
                 | Some req \<Rightarrow>
                     fetchSources_loop tr cache entries sourceList' (fx @ [Fetch key req]))
           else fetchSources_loop tr cache entries sourceList' fx)"

text \<open>
  \<open>isEqual\<close> of lodash on two dictionaries: the same keys with equal values, in any
  order.
\<close>

definition isEqual :: "(string \<times> sourceInfo) list \<Rightarrow> (string \<times> sourceInfo) list \<Rightarrow> bool" where
  "isEqual a b = list_all (\<lambda>k. map_of a k = map_of b k) (map fst a @ map fst b)"

text \<open>
  \<open>fetchSources()\<close>, lines 189-236, reading \<open>this.state\<close> as \<open>view\<close>. Reading
  \<open>.sources\<close> of an undefined \<open>mapStyle\<close> and \<open>Object.entries\<close> of an undefined
  \<open>sources\<close> are TypeErrors.
\<close>

definition fetchSources_reading :: "App_state \<Rightarrow> App \<Rightarrow> outcome" where
  "fetchSources_reading view w =
     (case mapStyle view of
        None \<Rightarrow> Throws TypeError w
      | Some ms \<Rightarrow>
          (case sources_style ms of
             None \<Rightarrow> Throws TypeError w
           | Some entries \<Rightarrow>
               (case fetchSources_loop (transformRequest (props w)) (sources view) entries
                       (sources view) [] of
                  (Some e, sourceList, fx) \<Rightarrow> Throws e (w\<lparr>effects := effects w @ fx\<rparr>)
                | (None, sourceList, fx) \<Rightarrow>
                    if \<not> isEqual (sources view) sourceList
                    then Returns
                           (setState (\<lambda>s. s\<lparr>sources := sourceList\<rparr>)
                              (w\<lparr>effects := effects w @ fx @ [ConsoleDebug ''Setting sources'']\<rparr>))
                    else Returns (w\<lparr>effects := effects w @ fx\<rparr>))))"

definition fetchSources :: "App \<Rightarrow> outcome" where
  "fetchSources w = fetchSources_reading (state w) w"

text \<open>
  The handler of a failed fetch, lines 224-226:
  \<open>console.error("Failed to process sources for '%s'", url, err)\<close>. The names bound
  where the handler is written are its parameter, the loop's \<open>key\<close>, \<open>val\<close> and \<open>req\<close>,
  the method's \<open>sourceList\<close>, and the module's imports and declarations (lines 1-40).
  An identifier that is neither among them nor defined by the global object cannot be
  evaluated: a ReferenceError, raised before \<open>console.error\<close> is called.
\<close>

definition catch_scope :: "string list" where
  "catch_scope =
     [''err'', ''req'', ''key'', ''val'', ''sourceList'',
      ''React'', ''PropTypes'', ''Mousetrap'', ''MapboxGlMap'', ''LayerList'', ''LayerEditor'',
      ''Toolbar'', ''AppLayout'', ''MessagePanel'', ''downloadGlyphsMetadata'',
      ''downloadSpriteMetadata'', ''styleSpec'', ''style'', ''initialStyleUrl'', ''loadStyleUrl'',
      ''undoMessages'', ''redoMessages'', ''loadDefaultStyle'', ''StyleStore'', ''RevisionStore'',
      ''LayerWatcher'', ''tokens'', ''isEqual'', ''Debug'', ''MapboxGl'', ''updateRootSpec'',
      ''App'']"

definition resolves :: "env \<Rightarrow> string \<Rightarrow> bool" where
  "resolves env name = (name \<in> set catch_scope \<or> name \<in> set (globals env))"

definition fetchSources_catch :: "env \<Rightarrow> App \<Rightarrow> outcome" where
  "fetchSources_catch env w =
     (if resolves env ''url''
      then Returns (w\<lparr>effects := effects w @ [ConsoleError ''Failed to process sources for %s'']\<rparr>)
      else Throws ReferenceError w)"

subsection \<open>Editing the style\<close>

text \<open>
  \<open>onStyleChanged(newStyle, save=true)\<close>, lines 108-133. In the accepting branch the
  first read of \<open>this.state.mapStyle.glyphs\<close> is a TypeError when \<open>mapStyle\<close> is
  undefined. \<open>fetchSources\<close> runs after \<open>setState\<close> and reads \<open>this.state\<close>.
\<close>

definition onStyleChanged :: "env \<Rightarrow> style \<Rightarrow> bool \<Rightarrow> App \<Rightarrow> outcome" where
  "onStyleChanged env newStyle save w =
     (let errs = validate env newStyle in
      if length errs = 0 then
        (case mapStyle (state w) of
           None \<Rightarrow> Throws TypeError w
         | Some cur \<Rightarrow>
             let w1 = (if glyphs newStyle \<noteq> glyphs cur then updateFonts (glyphs newStyle) w else w);
                 w2 = (if sprite newStyle \<noteq> sprite cur then updateIcons (sprite newStyle) w1 else w1);
                 w3 = w2\<lparr>revisionStore := addRevision (revisionStore w2) newStyle\<rparr>;
                 w4 = (if save then saveStyle (Some newStyle) w3 else w3);
                 w5 = setState (\<lambda>s. s\<lparr>mapStyle := Some newStyle, errors := []\<rparr>) w4
             in fetchSources_reading (this_state env (state w) w5) w5)
      else
        let w1 = setState (\<lambda>s. s\<lparr>errors := map message errs\<rparr>) w
        in fetchSources_reading (this_state env (state w) w1) w1)"

text \<open>\<open>onUndo()\<close> and \<open>onRedo()\<close>, lines 135-153.\<close>

definition onUndo :: "env \<Rightarrow> App \<Rightarrow> App" where
  "onUndo env w =
     (let (r, activeStyle) = undo (revisionStore w);
          messages = undoMessages env (mapStyle (state w)) activeStyle;
          w1 = saveStyle activeStyle (w\<lparr>revisionStore := r\<rparr>)
      in setState (\<lambda>s. s\<lparr>mapStyle := activeStyle, infos := messages\<rparr>) w1)"

definition onRedo :: "env \<Rightarrow> App \<Rightarrow> App" where
  "onRedo env w =
     (let (r, activeStyle) = redo (revisionStore w);
          messages = redoMessages env (mapStyle (state w)) activeStyle;
          w1 = saveStyle activeStyle (w\<lparr>revisionStore := r\<rparr>)
      in setState (\<lambda>s. s\<lparr>mapStyle := activeStyle, infos := messages\<rparr>) w1)"

text \<open>
  \<open>onLayersChange(changedLayers)\<close>, lines 155-161. Spreading an undefined \<open>mapStyle\<close>
  contributes no property: the new document then has \<open>layers\<close> only.
\<close>

definition onLayersChange :: "env \<Rightarrow> layer list \<Rightarrow> App \<Rightarrow> outcome" where
  "onLayersChange env changedLayers w =
     (let changedStyle =
            (case mapStyle (state w) of
               None \<Rightarrow> \<lparr>glyphs = None, sprite = None, layers = changedLayers, sources_style = None\<rparr>
             | Some ms \<Rightarrow> ms\<lparr>layers := changedLayers\<rparr>)
      in onStyleChanged env changedStyle True w)"

text \<open>
  Modelled from the spec: \<open>style.indexOfLayer(layers, layerId)\<close> of libs/style.js, which
  is not under src/. The spec speaks of "a selection index into the layer list": the
  position of the first layer whose id is \<open>layerId\<close>, and no index when there is none.
\<close>

fun indexOfLayer :: "layer list \<Rightarrow> string \<Rightarrow> nat option" where
  "indexOfLayer [] layerId = None"
| "indexOfLayer (l # ls) layerId =
     (if id_layer l = layerId then Some 0 else map_option Suc (indexOfLayer ls layerId))"

text \<open>
  \<open>onLayerIdChange(oldId, newId)\<close> and \<open>onLayerChanged(layer)\<close>, lines 163-181. Reading
  \<open>.layers\<close> of an undefined \<open>mapStyle\<close> is a TypeError. An assignment
  \<open>changedLayers[idx] = ...\<close> with an \<open>idx\<close> that is no index sets a property of that
  name on the array and changes none of its elements.
\<close>

definition onLayerIdChange :: "env \<Rightarrow> string \<Rightarrow> string \<Rightarrow> App \<Rightarrow> outcome" where
  "onLayerIdChange env oldId newId w =
     (case mapStyle (state w) of
        None \<Rightarrow> Throws TypeError w
      | Some ms \<Rightarrow>
          let changedLayers = layers ms in
          (case indexOfLayer changedLayers oldId of
             None \<Rightarrow> onLayersChange env changedLayers w
           | Some idx \<Rightarrow>
               onLayersChange env
                 (changedLayers[idx := (changedLayers ! idx)\<lparr>id_layer := newId\<rparr>]) w))"

definition onLayerChanged :: "env \<Rightarrow> layer \<Rightarrow> App \<Rightarrow> outcome" where
  "onLayerChanged env l w =
     (case mapStyle (state w) of
        None \<Rightarrow> Throws TypeError w
      | Some ms \<Rightarrow>
          let changedLayers = layers ms in
          (case indexOfLayer changedLayers (id_layer l) of
             None \<Rightarrow> onLayersChange env changedLayers w
           | Some idx \<Rightarrow> onLayersChange env (changedLayers[idx := l]) w))"

text \<open>\<open>changeInspectMode()\<close>, lines 183-187.\<close>

definition changeInspectMode :: "App \<Rightarrow> App" where
  "changeInspectMode w =
     setState (\<lambda>s. s\<lparr>inspectModeEnabled := \<not> inspectModeEnabled (state w)\<rparr>) w"

text \<open>\<open>onLayerSelect(layerId)\<close>, lines 258-261.\<close>

definition onLayerSelect :: "string \<Rightarrow> App \<Rightarrow> outcome" where
  "onLayerSelect layerId w =
     (case mapStyle (state w) of
        None \<Rightarrow> Throws TypeError w
      | Some ms \<Rightarrow>
          let idx = indexOfLayer (layers ms) layerId
          in Returns (setState (\<lambda>s. s\<lparr>selectedLayerIndex := idx\<rparr>) w))"

subsection \<open>Sequences of operations\<close>

text \<open>
  The operations of the component as events. An exception that escapes a handler ends
  that handler only: the next event finds the component as the handler left it.
\<close>

datatype event =
    StyleChanged style bool
  | Undo
  | Redo
  | PropsUpdate App_props
  | LayerSelect string
  | LayersChange "layer list"
  | LayerIdChange string string
  | LayerChanged layer
  | InspectModeToggle
  | DataChange

fun dispatch :: "env \<Rightarrow> event \<Rightarrow> App \<Rightarrow> outcome" where
  "dispatch env (StyleChanged newStyle save) w = onStyleChanged env newStyle save w"
| "dispatch env Undo w = Returns (onUndo env w)"
| "dispatch env Redo w = Returns (onRedo env w)"
| "dispatch env (PropsUpdate p) w = Returns (receiveProps p w)"
| "dispatch env (LayerSelect layerId) w = onLayerSelect layerId w"
| "dispatch env (LayersChange changedLayers) w = onLayersChange env changedLayers w"
| "dispatch env (LayerIdChange oldId newId) w = onLayerIdChange env oldId newId w"
| "dispatch env (LayerChanged l) w = onLayerChanged env l w"
| "dispatch env InspectModeToggle w = Returns (changeInspectMode w)"
| "dispatch env DataChange w = fetchSources w"

text \<open>
  After a handler React renders the component anew. From React 16.4 on it first derives
  the state from the props. \<open>render()\<close>, lines 263-307, reads
  \<open>this.state.mapStyle.layers\<close>: a TypeError when \<open>mapStyle\<close> is undefined, and React
  unmounts a component whose \<open>render\<close> throws. (A handler that called no \<open>setState\<close>
  causes no render; state and props are then what the last render saw, and deriving
  and rendering them again changes nothing.)
\<close>

definition derive :: "App \<Rightarrow> App" where
  "derive w = w\<lparr>state := getDerivedStateFromProps (props w) (state w)\<rparr>"

definition render :: "App \<Rightarrow> js_error option" where
  "render w = (case mapStyle (state w) of None \<Rightarrow> Some TypeError | Some ms \<Rightarrow> None)"

definition rerender :: "env \<Rightarrow> App \<Rightarrow> App" where
  "rerender env w =
     (let w' = (if derive_on_update env then derive w else w)
      in case render w' of None \<Rightarrow> w' | Some e \<Rightarrow> w'\<lparr>mounted := False\<rparr>)"

text \<open>
  Mounting: the constructor, \<open>getDerivedStateFromProps\<close> and the first render.
\<close>

definition mount :: "env \<Rightarrow> App_props \<Rightarrow> App" where
  "mount env p =
     (let w = derive (constructor env p)
      in case render w of None \<Rightarrow> w\<lparr>mounted := True\<rparr> | Some e \<Rightarrow> w)"

text \<open>
  One event: its handler, then the render. An unmounted component receives no event.
\<close>

definition step :: "env \<Rightarrow> event \<Rightarrow> App \<Rightarrow> App" where
  "step env ev w = (if mounted w then rerender env (after (dispatch env ev w)) else w)"

fun run :: "env \<Rightarrow> event list \<Rightarrow> App \<Rightarrow> App" where
  "run env [] w = w"
| "run env (ev # evs) w = run env evs (step env ev w)"

subsection \<open>The properties the specification states\<close>

text \<open>
  The selection is within the layer list: \<open>0 <= selectedLayerIndex < layers.length\<close>
  whenever the list is not empty. A state without a style document has no layer list.
\<close>

definition in_bounds :: "nat option \<Rightarrow> layer list \<Rightarrow> bool" where
  "in_bounds idx ls = (ls = [] \<or> (case idx of None \<Rightarrow> False | Some i \<Rightarrow> i < length ls))"

definition selection_in_bounds :: "App_state \<Rightarrow> bool" where
  "selection_in_bounds s =
     (case mapStyle s of None \<Rightarrow> True | Some ms \<Rightarrow> in_bounds (selectedLayerIndex s) (layers ms))"

text \<open>
  The events that keep the selection where it is valid: selecting a layer that is in
  the list; a layer list, passed to \<open>onLayersChange\<close> or within a style passed to
  \<open>onStyleChanged\<close> or brought by the props, that still has the selected position;
  changing one layer of the list; and the events that concern neither the list nor the
  selection. (Undo and redo bring back lists of the revision store, of any length.)
\<close>

fun keeps_selection :: "App \<Rightarrow> event \<Rightarrow> bool" where
  "keeps_selection w (LayerSelect layerId) =
     (case mapStyle (state w) of None \<Rightarrow> True | Some ms \<Rightarrow> layerId \<in> set (map id_layer (layers ms)))"
| "keeps_selection w (LayersChange changedLayers) =
     in_bounds (selectedLayerIndex (state w)) changedLayers"
| "keeps_selection w (StyleChanged newStyle save) =
     in_bounds (selectedLayerIndex (state w)) (layers newStyle)"
| "keeps_selection w (PropsUpdate p) =
     (case mapStyle_props p of None \<Rightarrow> True
      | Some ms \<Rightarrow> in_bounds (selectedLayerIndex (state w)) (layers ms))"
| "keeps_selection w Undo = False"
| "keeps_selection w Redo = False"
| "keeps_selection w ev = True"

fun keeps_selection_run :: "env \<Rightarrow> event list \<Rightarrow> App \<Rightarrow> bool" where
  "keeps_selection_run env [] w = True"
| "keeps_selection_run env (ev # evs) w =
     (keeps_selection w ev \<and> keeps_selection_run env evs (step env ev w))"

fun is_LayerSelect :: "event \<Rightarrow> bool" where
  "is_LayerSelect (LayerSelect layerId) = True"
| "is_LayerSelect ev = False"

text \<open>
  In the specification's words: "the last value that passed schema validation, or the
  previous valid value if validation failed", over the styles a sequence of events
  passes to \<open>onStyleChanged\<close>, starting from the document \<open>cur\<close>.
\<close>

fun last_accepted :: "env \<Rightarrow> style \<Rightarrow> event list \<Rightarrow> style" where
  "last_accepted env cur [] = cur"
| "last_accepted env cur (StyleChanged newStyle save # evs) =
     last_accepted env (if validate env newStyle = [] then newStyle else cur) evs"
| "last_accepted env cur (ev # evs) = last_accepted env cur evs"

text \<open>The styles of a sequence of events that \<open>onStyleChanged\<close> receives and the
  validator accepts, in order.\<close>

fun accepted_styles :: "env \<Rightarrow> event list \<Rightarrow> style list" where
  "accepted_styles env [] = []"
| "accepted_styles env (StyleChanged newStyle save # evs) =
     (if validate env newStyle = [] then newStyle # accepted_styles env evs
      else accepted_styles env evs)"
| "accepted_styles env (ev # evs) = accepted_styles env evs"

fun is_StyleChanged :: "event \<Rightarrow> bool" where
  "is_StyleChanged (StyleChanged newStyle save) = True"
| "is_StyleChanged ev = False"








text \<open>The calls a method made: the trace of \<open>w'\<close> beyond the trace of \<open>w\<close>.\<close>

definition new_effects :: "App \<Rightarrow> App \<Rightarrow> effect list" where
  "new_effects w w' = drop (length (effects w)) (effects w')"

fun is_UpdateFonts :: "effect \<Rightarrow> bool" where
  "is_UpdateFonts (UpdateFonts urlTemplate) = True"
| "is_UpdateFonts e = False"

fun is_UpdateIcons :: "effect \<Rightarrow> bool" where
  "is_UpdateIcons (UpdateIcons baseUrl) = True"
| "is_UpdateIcons e = False"

text \<open>The calls \<open>fetchSources\<close> makes: fetches and console messages.\<close>

fun is_fetch_effect :: "effect \<Rightarrow> bool" where
  "is_fetch_effect (Fetch key req) = True"
| "is_fetch_effect (ConsoleDebug msg) = True"
| "is_fetch_effect e = False"

text \<open>
  A host that controls the component through its props: a document the component
  hands to \<open>onSnapshotSave\<close> comes back as the \<open>mapStyle\<close> prop. \<open>last_saved\<close> is the
  document of the last such call in a trace. (The default \<open>onSnapshotSave\<close>, line 49,
  is not such a host: it ignores the document.)
\<close>

fun last_saved :: "effect list \<Rightarrow> style option" where
  "last_saved [] = None"
| "last_saved (SnapshotSave (Some snapshot) # fx) =
     (case last_saved fx of None \<Rightarrow> Some snapshot | Some later \<Rightarrow> Some later)"
| "last_saved (e # fx) = last_saved fx"

definition step_echoed :: "env \<Rightarrow> event \<Rightarrow> App \<Rightarrow> App" where
  "step_echoed env ev w =
     (let w' = step env ev w
      in case last_saved (new_effects w w') of
           None \<Rightarrow> w'
         | Some snapshot \<Rightarrow>
             step env (PropsUpdate ((props w')\<lparr>mapStyle_props := Some snapshot\<rparr>)) w')"

fun run_echoed :: "env \<Rightarrow> event list \<Rightarrow> App \<Rightarrow> App" where
  "run_echoed env [] w = w"
| "run_echoed env (ev # evs) w = run_echoed env evs (step_echoed env ev w)"

text \<open>
  In the specification's words, "undo/redo restores prior snapshots": from the component
  \<open>w\<close>, whose accepted edits were \<open>acc\<close>, an undo shows the snapshot the revision
  store returns as the previous revision, which is the last but one of \<open>acc\<close> (the only
  one when there is one), a redo after it shows the last one again, and each hands the
  snapshot it restored to \<open>onSnapshotSave\<close> and nothing else. \<open>next\<close> is how an
  event is followed: \<open>step\<close>, or \<open>step_echoed\<close> with a host that passes the snapshot
  back.
\<close>

definition restores_snapshots :: "(event \<Rightarrow> App \<Rightarrow> App) \<Rightarrow> App \<Rightarrow> style list \<Rightarrow> bool" where
  "restores_snapshots next w acc =
     (let u = next Undo w; r = next Redo u
      in current (revisionStore w) = Some (last acc)
         \<and> mounted u
         \<and> mapStyle (state u) = snd (undo (revisionStore w))
         \<and> mapStyle (state u)
             = Some (if 2 \<le> length acc then acc ! (length acc - 2) else last acc)
         \<and> new_effects w u = [SnapshotSave (mapStyle (state u))]
         \<and> mounted r
         \<and> mapStyle (state r) = Some (last acc)
         \<and> new_effects u r = [SnapshotSave (Some (last acc))])"

subsection \<open>A concrete component\<close>

text \<open>
  An instance of the parameters, to evaluate the model on: a validator that rejects a
  document in which two layers share an id (as the style validator does, among its
  other checks), no diff messages, a global object with \<open>console\<close> and \<open>fetch\<close>, React
  from 16.4 on (\<open>env0\<close>) or React 16.3 (\<open>env163\<close>), and a \<open>transformRequest\<close> that
  returns \<open>{url}\<close>.
\<close>

definition validate_ids :: "style \<Rightarrow> verror list" where
  "validate_ids s =
     (if distinct (map id_layer (layers s)) then [] else [\<lparr>message = ''duplicate layer id''\<rparr>])"

definition env0 :: env where
  "env0 = \<lparr>validate = validate_ids, latest = [],
           undoMessages = (\<lambda>before after. []), redoMessages = (\<lambda>before after. []),
           globals = [''console'', ''fetch''], batched = True, derive_on_update = True\<rparr>"

definition env163 :: env where
  "env163 = env0\<lparr>derive_on_update := False\<rparr>"

definition transformRequest_url :: "string \<Rightarrow> request option" where
  "transformRequest_url url = Some \<lparr>url_req = url, headers_req = []\<rparr>"

definition layer_a :: layer where
  "layer_a = \<lparr>id_layer = ''a'', rest_layer = []\<rparr>"

definition layer_b :: layer where
  "layer_b = \<lparr>id_layer = ''b'', rest_layer = []\<rparr>"

definition style_empty :: style where
  "style_empty = \<lparr>glyphs = None, sprite = None, layers = [], sources_style = Some []\<rparr>"

definition style_a :: style where
  "style_a = style_empty\<lparr>layers := [layer_a]\<rparr>"

definition style_ab :: style where
  "style_ab = style_empty\<lparr>layers := [layer_a, layer_b]\<rparr>"

definition style_aa :: style where
  "style_aa = style_empty\<lparr>layers := [layer_a, layer_a]\<rparr>"

definition style_a_glyphs :: style where
  "style_a_glyphs = style_a\<lparr>glyphs := Some ''https://fonts.example/{fontstack}/{range}.pbf''\<rparr>"

definition style_osm :: style where
  "style_osm =
     style_empty\<lparr>sources_style :=
       Some [(''osm'', \<lparr>type_src = ''vector'', url_src = Some ''https://tiles.example/osm.json''\<rparr>)]\<rparr>"

definition props0 :: "style \<Rightarrow> App_props" where
  "props0 s = \<lparr>mapStyle_props = Some s, transformRequest = transformRequest_url\<rparr>"

definition app0 :: "style \<Rightarrow> App" where
  "app0 s = constructor env0 \<lparr>mapStyle_props = Some s, transformRequest = transformRequest_url\<rparr>"

section \<open>What the methods do to the component\<close>

subsection \<open>fetchSources changes the cache and the trace only\<close>

lemma fetchSources_loop_effects:
  "fetchSources_loop tr cache entries sourceList fx = (e, sourceList', fx') \<Longrightarrow>
   \<exists>new. fx' = fx @ new \<and> list_all is_fetch_effect new"
proof (induction tr cache entries sourceList fx rule: fetchSources_loop.induct)
  case (1 tr cache sourceList fx)
  then show ?case by simp
next
  case (2 tr cache key val entries sourceList fx)
  then show ?case
    by (fastforce simp: Let_def split: if_splits option.splits)
qed

lemma fetchSources_reading_after:
  "\<exists>srcs fx. after (fetchSources_reading view w) =
      w\<lparr>effects := effects w @ fx, state := (state w)\<lparr>sources := srcs\<rparr>\<rparr>
    \<and> list_all is_fetch_effect fx"
proof -
  have stay: "\<exists>srcs fx. w = w\<lparr>effects := effects w @ fx, state := (state w)\<lparr>sources := srcs\<rparr>\<rparr>
      \<and> list_all is_fetch_effect fx"
    by (rule exI [of _ "sources (state w)"], rule exI [of _ "[]"]) simp
  show ?thesis
  proof (cases "mapStyle view")
    case None
    with stay show ?thesis by (simp add: fetchSources_reading_def)
  next
    case (Some ms)
    show ?thesis
    proof (cases "sources_style ms")
      case None
      with Some stay show ?thesis by (simp add: fetchSources_reading_def)
    next
      case (Some entries)
      obtain e sourceList fx where
        loop: "fetchSources_loop (transformRequest (props w)) (sources view) entries (sources view) []
                 = (e, sourceList, fx)"
        by (metis prod_cases3)
      from fetchSources_loop_effects [OF loop] have fx: "list_all is_fetch_effect fx"
        by simp
      show ?thesis
      proof (cases e)
        case None
        show ?thesis
          apply (rule exI [of _ "if isEqual (sources view) sourceList then sources (state w) else sourceList"])
          apply (rule exI [of _ "if isEqual (sources view) sourceList then fx else fx @ [ConsoleDebug ''Setting sources'']"])
          using \<open>mapStyle view = Some ms\<close> Some loop None fx
          apply (simp add: fetchSources_reading_def setState_def)
          done
      next
        case (Some err)
        show ?thesis
          apply (rule exI [of _ "sources (state w)"])
          apply (rule exI [of _ fx])
          using \<open>mapStyle view = Some ms\<close> \<open>sources_style ms = Some entries\<close> loop Some fx
          apply (simp add: fetchSources_reading_def)
          done
      qed
    qed
  qed
qed

subsection \<open>The cache that fetchSources builds\<close>

text \<open>
  With a \<open>transformRequest\<close> that returns a request for every url, and no source or
  cache entry named \<open>hasOwnProperty\<close>, the loop returns; it keeps every entry of the
  cache, adds one for every other source name but \<open>__proto__\<close>, and starts a fetch
  for exactly the new sources of type \<open>vector\<close> that have a \<open>url\<close>.
\<close>

lemma isEqual_map_of: "isEqual a b \<Longrightarrow> map_of a = map_of b"
proof
  fix k
  assume eq: "isEqual a b"
  show "map_of a k = map_of b k"
  proof (cases "k \<in> set (map fst a @ map fst b)")
    case True
    with eq show ?thesis by (simp add: isEqual_def list_all_iff)
  next
    case False
    then have "map_of a k = None" "map_of b k = None"
      by (simp_all add: map_of_eq_None_iff)
    then show ?thesis by simp
  qed
qed

lemma map_of_assign:
  "map_of (assign key v obj) = (if key = ''__proto__'' then map_of obj else (map_of obj)(key \<mapsto> v))"
  by (simp add: assign_def AList.update_conv')

lemma fetchSources_loop_keeps:
  "fetchSources_loop tr cache entries sourceList fx = (e, sourceList', fx') \<Longrightarrow>
   map_of sourceList k = Some info \<Longrightarrow> map_of sourceList' k = Some info"
proof (induction tr cache entries sourceList fx rule: fetchSources_loop.induct)
  case (1 tr cache sourceList fx)
  then show ?case by simp
next
  case (2 tr cache key val entries sourceList fx)
  define sl where "sl = assign key \<lparr>type_info = type_src val, layers_info = []\<rparr> sourceList"
  have sl: "map_of sourceList key = None \<Longrightarrow> map_of sl k = Some info"
    using "2.prems"(2) by (auto simp: sl_def map_of_assign)
  show ?case
  proof (cases "shadowed sourceList")
    case True
    with "2.prems" show ?thesis by simp
  next
    case ns: False
    show ?thesis
    proof (cases "map_of sourceList key \<noteq> None")
      case True
      with ns "2.prems" "2.IH"(1) show ?thesis by simp
    next
      case absent: False
      show ?thesis
      proof (cases "shadowed cache")
        case True
        with ns absent "2.prems"(1) sl show ?thesis
          by (simp add: Let_def sl_def)
      next
        case nc: False
        show ?thesis
        proof (cases "map_of cache key = None \<and> type_src val = ''vector'' \<and> url_src val \<noteq> None")
          case True
          show ?thesis
          proof (cases "tr (the (url_src val))")
            case None
            with ns absent nc True "2.prems"(1) sl show ?thesis
              by (simp add: Let_def sl_def)
          next
            case (Some req)
            with ns absent nc True "2.prems"(1) have
              "fetchSources_loop tr cache entries sl (fx @ [Fetch key req]) = (e, sourceList', fx')"
              by (simp add: Let_def sl_def)
            from "2.IH"(2) [OF ns absent sl_def nc True Some this] sl absent show ?thesis
              by simp
          qed
        next
          case False
          with ns absent nc "2.prems"(1) have
            "fetchSources_loop tr cache entries sl fx = (e, sourceList', fx')"
            by (auto simp: Let_def sl_def)
          from "2.IH"(3) [OF ns absent sl_def nc False this] sl absent show ?thesis
            by simp
        qed
      qed
    qed
  qed
qed

lemma fetchSources_loop_adds:
  "fetchSources_loop tr cache entries sourceList fx = (None, sourceList', fx') \<Longrightarrow>
   (k, v) \<in> set entries \<Longrightarrow> distinct (map fst entries) \<Longrightarrow> map_of sourceList k = None \<Longrightarrow>
   k \<noteq> ''__proto__'' \<Longrightarrow>
   map_of sourceList' k = Some \<lparr>type_info = type_src v, layers_info = []\<rparr>"
proof (induction tr cache entries sourceList fx rule: fetchSources_loop.induct)
  case (1 tr cache sourceList fx)
  then show ?case by simp
next
  case (2 tr cache key val entries sourceList fx)
  define sl where "sl = assign key \<lparr>type_info = type_src val, layers_info = []\<rparr> sourceList"
  from "2.prems"(1) have ns: "\<not> shadowed sourceList"
    by (auto split: if_splits)
  show ?case
  proof (cases "map_of sourceList key \<noteq> None")
    case True
    with "2.prems"(4) have ne: "k \<noteq> key" by auto
    with "2.prems" have in_rest: "(k, v) \<in> set entries" and d: "distinct (map fst entries)"
      by auto
    from ns True "2.prems"(1) have
      "fetchSources_loop tr cache entries sourceList fx = (None, sourceList', fx')"
      by simp
    from "2.IH"(1) [OF ns True this in_rest d "2.prems"(4,5)] show ?thesis .
  next
    case absent: False
    from ns absent "2.prems"(1) have nc: "\<not> shadowed cache"
      by (auto simp: Let_def split: if_splits)
    from "2.prems"(3) have d: "distinct (map fst entries)" by simp
    have same: "map_of sourceList' k = Some \<lparr>type_info = type_src v, layers_info = []\<rparr>"
      if "fetchSources_loop tr cache entries sl fx0 = (None, sourceList', fx')" and "k = key"
      for fx0
    proof -
      from that(2) "2.prems"(2,3) have v: "v = val"
        by (auto simp: rev_image_eqI)
      from that(2) "2.prems"(5) have
        "map_of sl k = Some \<lparr>type_info = type_src val, layers_info = []\<rparr>"
        by (simp add: sl_def map_of_assign)
      from fetchSources_loop_keeps [OF that(1) this] v show ?thesis by simp
    qed
    have other: "(k, v) \<in> set entries \<and> map_of sl k = None" if "k \<noteq> key"
      using that "2.prems"(2,4) by (simp add: sl_def map_of_assign)
    show ?thesis
    proof (cases "map_of cache key = None \<and> type_src val = ''vector'' \<and> url_src val \<noteq> None")
      case True
      with ns absent nc "2.prems"(1) obtain req where
        req: "tr (the (url_src val)) = Some req"
        and l: "fetchSources_loop tr cache entries sl (fx @ [Fetch key req]) = (None, sourceList', fx')"
        by (auto simp: Let_def sl_def split: option.splits)
      show ?thesis
      proof (cases "k = key")
        case True
        from same [OF l True] show ?thesis .
      next
        case False
        from other [OF False] have "(k, v) \<in> set entries" "map_of sl k = None" by simp_all
        from "2.IH"(2) [OF ns absent sl_def nc True req l this(1) d this(2) "2.prems"(5)]
        show ?thesis .
      qed
    next
      case False
      with ns absent nc "2.prems"(1) have
        l: "fetchSources_loop tr cache entries sl fx = (None, sourceList', fx')"
        by (auto simp: Let_def sl_def)
      show ?thesis
      proof (cases "k = key")
        case True
        from same [OF l True] show ?thesis .
      next
        case ne: False
        from other [OF ne] have "(k, v) \<in> set entries" "map_of sl k = None" by simp_all
        from "2.IH"(3) [OF ns absent sl_def nc False l this(1) d this(2) "2.prems"(5)]
        show ?thesis .
      qed
    qed
  qed
qed

lemma fetchSources_loop_keys:
  "fetchSources_loop tr cache entries sourceList fx = (e, sourceList', fx') \<Longrightarrow>
   map_of sourceList' k = Some info \<Longrightarrow>
   map_of sourceList k \<noteq> None \<or> k \<in> set (map fst entries)"
proof (induction tr cache entries sourceList fx rule: fetchSources_loop.induct)
  case (1 tr cache sourceList fx)
  then show ?case by simp
next
  case (2 tr cache key val entries sourceList fx)
  then show ?case
    by (fastforce simp: Let_def map_of_assign split: if_splits option.splits)
qed

lemma fetchSources_loop_fetches:
  "fetchSources_loop tr cache entries sourceList fx = (e, sourceList', fx') \<Longrightarrow>
   Fetch k req \<in> set fx' \<Longrightarrow>
   Fetch k req \<in> set fx \<or>
   (\<exists>v u. (k, v) \<in> set entries \<and> map_of cache k = None
          \<and> type_src v = ''vector'' \<and> url_src v = Some u \<and> tr u = Some req)"
proof (induction tr cache entries sourceList fx rule: fetchSources_loop.induct)
  case (1 tr cache sourceList fx)
  then show ?case by simp
next
  case (2 tr cache key val entries sourceList fx)
  then show ?case
    by (fastforce simp: Let_def split: if_splits option.splits)
qed

lemma shadowed_assign:
  "key \<noteq> ''hasOwnProperty'' \<Longrightarrow> shadowed (assign key v obj) = shadowed obj"
  by (simp add: shadowed_def map_of_assign)

lemma fetchSources_loop_returns:
  "\<forall>u. tr u \<noteq> None \<Longrightarrow> \<not> shadowed sourceList \<Longrightarrow> \<not> shadowed cache \<Longrightarrow>
   ''hasOwnProperty'' \<notin> set (map fst entries) \<Longrightarrow>
   fst (fetchSources_loop tr cache entries sourceList fx) = None"
proof (induction tr cache entries sourceList fx rule: fetchSources_loop.induct)
  case (1 tr cache sourceList fx)
  then show ?case by simp
next
  case (2 tr cache key val entries sourceList fx)
  from "2.prems"(1) obtain req where req: "tr (the (url_src val)) = Some req"
    by (metis option.exhaust)
  from "2.prems"(4) have key: "key \<noteq> ''hasOwnProperty''"
    and rest: "''hasOwnProperty'' \<notin> set (map fst entries)"
    by auto
  define sl where "sl = assign key \<lparr>type_info = type_src val, layers_info = []\<rparr> sourceList"
  from key "2.prems"(2) have sl: "\<not> shadowed sl"
    by (simp add: sl_def shadowed_assign)
  show ?case
  proof (cases "map_of sourceList key \<noteq> None")
    case True
    from "2.IH"(1) [OF "2.prems"(2) True "2.prems"(1,2,3) rest] True "2.prems"(2) show ?thesis
      by simp
  next
    case absent: False
    show ?thesis
    proof (cases "map_of cache key = None \<and> type_src val = ''vector'' \<and> url_src val \<noteq> None")
      case True
      from "2.IH"(2) [OF "2.prems"(2) absent sl_def "2.prems"(3) True req "2.prems"(1) sl "2.prems"(3) rest]
        True absent "2.prems"(2,3) req
      show ?thesis
        by (simp add: Let_def sl_def)
    next
      case False
      from "2.IH"(3) [OF "2.prems"(2) absent sl_def "2.prems"(3) False "2.prems"(1) sl "2.prems"(3) rest]
        False absent "2.prems"(2,3)
      show ?thesis
        by (auto simp: Let_def sl_def)
    qed
  qed
qed

lemma fetchSources_cache:
  assumes ms: "mapStyle (state w) = Some ms" and entries: "sources_style ms = Some entries"
    and keys: "distinct (map fst entries)"
    and names: "''hasOwnProperty'' \<notin> set (map fst entries)" "\<not> shadowed (sources (state w))"
    and tr: "\<forall>u. transformRequest (props w) u \<noteq> None"
  shows "thrown (fetchSources w) = None"
    and "map_of (sources (state w)) k = Some info \<Longrightarrow>
         map_of (sources (state (after (fetchSources w)))) k = Some info"
    and "(k, v) \<in> set entries \<Longrightarrow> map_of (sources (state w)) k = None \<Longrightarrow>
         k \<noteq> ''__proto__'' \<Longrightarrow>
         map_of (sources (state (after (fetchSources w)))) k
           = Some \<lparr>type_info = type_src v, layers_info = []\<rparr>"
    and "map_of (sources (state (after (fetchSources w)))) k = Some info \<Longrightarrow>
         map_of (sources (state w)) k \<noteq> None \<or> k \<in> set (map fst entries)"
    and "Fetch k req \<in> set (new_effects w (after (fetchSources w))) \<Longrightarrow>
         \<exists>v u. (k, v) \<in> set entries \<and> map_of (sources (state w)) k = None
              \<and> type_src v = ''vector'' \<and> url_src v = Some u
              \<and> transformRequest (props w) u = Some req"
proof -
  obtain e sourceList fx where
    loop: "fetchSources_loop (transformRequest (props w)) (sources (state w)) entries
             (sources (state w)) [] = (e, sourceList, fx)"
    by (metis prod_cases3)
  from fetchSources_loop_returns [OF tr names(2) names(2) names(1), of "[]"] loop
  have e: "e = None" by simp
  have after_eq: "after (fetchSources w) =
      (if isEqual (sources (state w)) sourceList then w\<lparr>effects := effects w @ fx\<rparr>
       else setState (\<lambda>s. s\<lparr>sources := sourceList\<rparr>)
              (w\<lparr>effects := effects w @ fx @ [ConsoleDebug ''Setting sources'']\<rparr>))"
    using ms entries loop e by (simp add: fetchSources_def fetchSources_reading_def)
  have cache: "map_of (sources (state (after (fetchSources w)))) = map_of sourceList"
    using after_eq isEqual_map_of [of "sources (state w)" sourceList]
    by (simp add: setState_def)
  show "thrown (fetchSources w) = None"
    using ms entries loop e by (simp add: fetchSources_def fetchSources_reading_def)
  show "map_of (sources (state (after (fetchSources w)))) k = Some info"
    if "map_of (sources (state w)) k = Some info"
    using fetchSources_loop_keeps [OF loop that] cache by simp
  show "map_of (sources (state (after (fetchSources w)))) k
          = Some \<lparr>type_info = type_src v, layers_info = []\<rparr>"
    if "(k, v) \<in> set entries" "map_of (sources (state w)) k = None" "k \<noteq> ''__proto__''"
    using fetchSources_loop_adds [OF loop [unfolded e] that(1) keys that(2,3)] cache by simp
  show "map_of (sources (state w)) k \<noteq> None \<or> k \<in> set (map fst entries)"
    if "map_of (sources (state (after (fetchSources w)))) k = Some info"
    using fetchSources_loop_keys [OF loop, of k info] that cache by simp
  show "\<exists>v u. (k, v) \<in> set entries \<and> map_of (sources (state w)) k = None
              \<and> type_src v = ''vector'' \<and> url_src v = Some u
              \<and> transformRequest (props w) u = Some req"
    if "Fetch k req \<in> set (new_effects w (after (fetchSources w)))"
  proof -
    from that after_eq have "Fetch k req \<in> set fx"
      by (auto simp: new_effects_def setState_def split: if_splits)
    from fetchSources_loop_fetches [OF loop this] show ?thesis
      by auto
  qed
qed

subsection \<open>The two branches of onStyleChanged\<close>

lemma onStyleChanged_rejected:
  assumes "validate env newStyle \<noteq> []"
  shows "\<exists>srcs fx. after (onStyleChanged env newStyle save w) =
      w\<lparr>effects := effects w @ fx,
        state := (state w)\<lparr>errors := map message (validate env newStyle), sources := srcs\<rparr>\<rparr>
    \<and> list_all is_fetch_effect fx"
proof -
  let ?w1 = "setState (\<lambda>s. s\<lparr>errors := map message (validate env newStyle)\<rparr>) w"
  from assms have "onStyleChanged env newStyle save w =
      fetchSources_reading (this_state env (state w) ?w1) ?w1"
    by (simp add: onStyleChanged_def Let_def)
  moreover obtain srcs fx where
    "after (fetchSources_reading (this_state env (state w) ?w1) ?w1) =
       ?w1\<lparr>effects := effects ?w1 @ fx, state := (state ?w1)\<lparr>sources := srcs\<rparr>\<rparr>"
    "list_all is_fetch_effect fx"
    using fetchSources_reading_after by blast
  ultimately show ?thesis
    by (auto simp: setState_def)
qed

lemma onStyleChanged_undefined:
  "validate env newStyle = [] \<Longrightarrow> mapStyle (state w) = None \<Longrightarrow>
   onStyleChanged env newStyle save w = Throws TypeError w"
  by (simp add: onStyleChanged_def)

lemma onStyleChanged_accepted:
  assumes "validate env newStyle = []" and "mapStyle (state w) = Some cur"
  shows "\<exists>srcs fx. after (onStyleChanged env newStyle save w) =
      w\<lparr>effects := effects w
           @ (if glyphs newStyle \<noteq> glyphs cur then [UpdateFonts (glyphs newStyle)] else [])
           @ (if sprite newStyle \<noteq> sprite cur then [UpdateIcons (sprite newStyle)] else [])
           @ (if save then [SnapshotSave (Some newStyle)] else []) @ fx,
        revisionStore := addRevision (revisionStore w) newStyle,
        state := (state w)\<lparr>mapStyle := Some newStyle, errors := [], sources := srcs\<rparr>\<rparr>
    \<and> list_all is_fetch_effect fx"
proof -
  define w1 where "w1 = (if glyphs newStyle \<noteq> glyphs cur then updateFonts (glyphs newStyle) w else w)"
  define w2 where "w2 = (if sprite newStyle \<noteq> sprite cur then updateIcons (sprite newStyle) w1 else w1)"
  define w3 where "w3 = w2\<lparr>revisionStore := addRevision (revisionStore w2) newStyle\<rparr>"
  define w4 where "w4 = (if save then saveStyle (Some newStyle) w3 else w3)"
  define w5 where "w5 = setState (\<lambda>s. s\<lparr>mapStyle := Some newStyle, errors := []\<rparr>) w4"
  from assms have run: "onStyleChanged env newStyle save w =
      fetchSources_reading (this_state env (state w) w5) w5"
    by (simp add: onStyleChanged_def Let_def w1_def w2_def w3_def w4_def w5_def)
  have w5: "w5 = w\<lparr>effects := effects w
           @ (if glyphs newStyle \<noteq> glyphs cur then [UpdateFonts (glyphs newStyle)] else [])
           @ (if sprite newStyle \<noteq> sprite cur then [UpdateIcons (sprite newStyle)] else [])
           @ (if save then [SnapshotSave (Some newStyle)] else []),
        revisionStore := addRevision (revisionStore w) newStyle,
        state := (state w)\<lparr>mapStyle := Some newStyle, errors := []\<rparr>\<rparr>"
    by (simp add: w1_def w2_def w3_def w4_def w5_def updateFonts_def updateIcons_def
        saveStyle_def setState_def)
  obtain srcs fx where
    "after (fetchSources_reading (this_state env (state w) w5) w5) =
       w5\<lparr>effects := effects w5 @ fx, state := (state w5)\<lparr>sources := srcs\<rparr>\<rparr>"
    "list_all is_fetch_effect fx"
    using fetchSources_reading_after by blast
  with run have "after (onStyleChanged env newStyle save w) =
      w5\<lparr>effects := effects w5 @ fx, state := (state w5)\<lparr>sources := srcs\<rparr>\<rparr>"
    by simp
  also have "\<dots> = w\<lparr>effects := effects w
           @ (if glyphs newStyle \<noteq> glyphs cur then [UpdateFonts (glyphs newStyle)] else [])
           @ (if sprite newStyle \<noteq> sprite cur then [UpdateIcons (sprite newStyle)] else [])
           @ (if save then [SnapshotSave (Some newStyle)] else []) @ fx,
        revisionStore := addRevision (revisionStore w) newStyle,
        state := (state w)\<lparr>mapStyle := Some newStyle, errors := [], sources := srcs\<rparr>\<rparr>"
    by (simp add: w5)
  finally show ?thesis
    using \<open>list_all is_fetch_effect fx\<close> by blast
qed

lemma onStyleChanged_state:
  "selectedLayerIndex (state (after (onStyleChanged env newStyle save w)))
     = selectedLayerIndex (state w)
   \<and> mapStyle (state (after (onStyleChanged env newStyle save w)))
     = (if validate env newStyle = [] \<and> mapStyle (state w) \<noteq> None then Some newStyle
        else mapStyle (state w))"
proof (cases "validate env newStyle = []")
  case False
  from onStyleChanged_rejected [OF False, of save w] False show ?thesis
    by auto
next
  case True
  show ?thesis
  proof (cases "mapStyle (state w)")
    case None
    with True show ?thesis
      by (simp add: onStyleChanged_undefined)
  next
    case (Some cur)
    from onStyleChanged_accepted [OF True Some, of save] True Some show ?thesis
      by auto
  qed
qed

lemma onStyleChanged_store:
  "revisionStore (after (onStyleChanged env newStyle save w))
     = (if validate env newStyle = [] \<and> mapStyle (state w) \<noteq> None
        then addRevision (revisionStore w) newStyle else revisionStore w)"
proof (cases "validate env newStyle = []")
  case False
  from onStyleChanged_rejected [OF False, of save w] False show ?thesis
    by auto
next
  case True
  show ?thesis
  proof (cases "mapStyle (state w)")
    case None
    with True show ?thesis
      by (simp add: onStyleChanged_undefined)
  next
    case (Some cur)
    from onStyleChanged_accepted [OF True Some, of save] True Some show ?thesis
      by auto
  qed
qed

subsection \<open>What a handler and a render leave alone\<close>

lemma onStyleChanged_frame:
  "props (after (onStyleChanged env newStyle save w)) = props w
   \<and> mounted (after (onStyleChanged env newStyle save w)) = mounted w"
proof (cases "validate env newStyle = []")
  case False
  from onStyleChanged_rejected [OF False, of save w] show ?thesis
    by auto
next
  case True
  show ?thesis
  proof (cases "mapStyle (state w)")
    case None
    with True show ?thesis
      by (simp add: onStyleChanged_undefined)
  next
    case (Some cur)
    from onStyleChanged_accepted [OF True Some, of save] show ?thesis
      by auto
  qed
qed

lemma fetchSources_frame:
  "props (after (fetchSources w)) = props w
   \<and> mounted (after (fetchSources w)) = mounted w
   \<and> revisionStore (after (fetchSources w)) = revisionStore w
   \<and> mapStyle (state (after (fetchSources w))) = mapStyle (state w)
   \<and> selectedLayerIndex (state (after (fetchSources w))) = selectedLayerIndex (state w)"
  using fetchSources_reading_after [of "state w" w]
  by (auto simp: fetchSources_def)

lemma dispatch_frame:
  "mounted (after (dispatch env ev w)) = mounted w
   \<and> props (after (dispatch env ev w)) = (case ev of PropsUpdate p \<Rightarrow> p | _ \<Rightarrow> props w)"
proof (cases ev)
  case (StyleChanged newStyle save)
  then show ?thesis by (simp add: onStyleChanged_frame)
next
  case Undo
  then show ?thesis
    by (simp add: onUndo_def Let_def split_beta saveStyle_def setState_def)
next
  case Redo
  then show ?thesis
    by (simp add: onRedo_def Let_def split_beta saveStyle_def setState_def)
next
  case (PropsUpdate p)
  then show ?thesis by (simp add: receiveProps_def)
next
  case (LayerSelect layerId)
  then show ?thesis
    by (simp add: onLayerSelect_def setState_def split: option.splits)
next
  case (LayersChange changedLayers)
  then show ?thesis by (simp add: onLayersChange_def onStyleChanged_frame)
next
  case (LayerIdChange oldId newId)
  then show ?thesis
    by (simp add: onLayerIdChange_def onLayersChange_def Let_def onStyleChanged_frame
        split: option.splits)
next
  case (LayerChanged l)
  then show ?thesis
    by (simp add: onLayerChanged_def onLayersChange_def Let_def onStyleChanged_frame
        split: option.splits)
next
  case InspectModeToggle
  then show ?thesis by (simp add: changeInspectMode_def setState_def)
next
  case DataChange
  then show ?thesis by (simp add: fetchSources_frame)
qed

lemma rerender_frame:
  "props (rerender env w) = props w"
  "revisionStore (rerender env w) = revisionStore w"
  "effects (rerender env w) = effects w"
  "state (rerender env w)
     = (if derive_on_update env then (state w)\<lparr>mapStyle := mapStyle_props (props w)\<rparr> else state w)"
  "mounted (rerender env w) = (mounted w \<and> mapStyle (state (rerender env w)) \<noteq> None)"
  by (auto simp: rerender_def derive_def render_def getDerivedStateFromProps_def Let_def
      split: option.splits)

lemma mount_frame:
  "props (mount env p) = p"
  "revisionStore (mount env p) = RevisionStore_new"
  "effects (mount env p) = []"
  "state (mount env p) = state (constructor env p)"
  "mounted (mount env p) = (mapStyle_props p \<noteq> None)"
  by (auto simp: mount_def derive_def render_def getDerivedStateFromProps_def Let_def
      constructor_def split: option.splits)

subsection \<open>Documents that passed validation\<close>










lemma last_accepted_styles:
  "last_accepted env cur evs = last (cur # accepted_styles env evs)"
  by (induction env cur evs rule: last_accepted.induct) auto

lemma last_saved_append:
  "last_saved (xs @ ys) = (case last_saved ys of None \<Rightarrow> last_saved xs | Some s \<Rightarrow> Some s)"
  by (induction xs rule: last_saved.induct) (auto split: option.splits)

lemma last_saved_fetch: "list_all is_fetch_effect fx \<Longrightarrow> last_saved fx = None"
  by (induction fx rule: last_saved.induct) auto

lemma step_StyleChanged:
  assumes "mounted w" and "mapStyle (state w) = Some cur"
    and "derive_on_update env \<Longrightarrow> mapStyle_props (props w) = Some cur"
  shows "mounted (step env (StyleChanged newStyle save) w)
     \<and> props (step env (StyleChanged newStyle save) w) = props w
     \<and> revisionStore (step env (StyleChanged newStyle save) w)
         = (if validate env newStyle = [] then addRevision (revisionStore w) newStyle
            else revisionStore w)
     \<and> mapStyle (state (step env (StyleChanged newStyle save) w))
         = (if derive_on_update env then Some cur
            else Some (if validate env newStyle = [] then newStyle else cur))
     \<and> last_saved (new_effects w (step env (StyleChanged newStyle save) w))
         = (if validate env newStyle = [] \<and> save then Some newStyle else None)"
proof (cases "validate env newStyle = []")
  case True
  from onStyleChanged_accepted [OF True assms(2), of save] obtain srcs fx where
    eq: "after (onStyleChanged env newStyle save w) =
      w\<lparr>effects := effects w
           @ (if glyphs newStyle \<noteq> glyphs cur then [UpdateFonts (glyphs newStyle)] else [])
           @ (if sprite newStyle \<noteq> sprite cur then [UpdateIcons (sprite newStyle)] else [])
           @ (if save then [SnapshotSave (Some newStyle)] else []) @ fx,
        revisionStore := addRevision (revisionStore w) newStyle,
        state := (state w)\<lparr>mapStyle := Some newStyle, errors := [], sources := srcs\<rparr>\<rparr>"
    and fx: "list_all is_fetch_effect fx"
    by blast
  from assms(1) have s: "step env (StyleChanged newStyle save) w
      = rerender env (after (onStyleChanged env newStyle save w))"
    by (simp add: step_def)
  from fx have "last_saved fx = None" by (rule last_saved_fetch)
  with True assms show ?thesis
    unfolding s eq by (simp add: rerender_frame new_effects_def last_saved_append)
next
  case False
  from onStyleChanged_rejected [OF False, of save w] obtain srcs fx where
    eq: "after (onStyleChanged env newStyle save w) =
       w\<lparr>effects := effects w @ fx,
         state := (state w)\<lparr>errors := map message (validate env newStyle), sources := srcs\<rparr>\<rparr>"
    and fx: "list_all is_fetch_effect fx"
    by blast
  from assms(1) have s: "step env (StyleChanged newStyle save) w
      = rerender env (after (onStyleChanged env newStyle save w))"
    by (simp add: step_def)
  from fx have "last_saved fx = None" by (rule last_saved_fetch)
  with False assms show ?thesis
    unfolding s eq by (simp add: rerender_frame new_effects_def)
qed

lemma step_PropsUpdate:
  assumes "mounted w" and "mapStyle_props p = Some s"
  shows "mounted (step env (PropsUpdate p) w)
     \<and> props (step env (PropsUpdate p) w) = p
     \<and> revisionStore (step env (PropsUpdate p) w) = revisionStore w
     \<and> effects (step env (PropsUpdate p) w) = effects w
     \<and> state (step env (PropsUpdate p) w) = (state w)\<lparr>mapStyle := Some s\<rparr>"
  using assms
  by (simp add: step_def rerender_frame receiveProps_def getDerivedStateFromProps_def)

lemma run_StyleChanged_163:
  assumes "\<forall>ev \<in> set evs. is_StyleChanged ev" and "mounted w" and "mapStyle (state w) = Some cur"
    and "\<not> derive_on_update env"
  shows "mounted (run env evs w)
       \<and> mapStyle (state (run env evs w)) = Some (last_accepted env cur evs)"
  using assms
proof (induction evs arbitrary: w cur)
  case Nil
  then show ?case by simp
next
  case (Cons ev evs)
  from Cons.prems obtain newStyle save where ev: "ev = StyleChanged newStyle save"
    by (cases ev) auto
  from step_StyleChanged [OF Cons.prems(2,3), of env newStyle save] Cons.prems(4)
  have st: "mounted (step env ev w)"
    "mapStyle (state (step env ev w)) = Some (if validate env newStyle = [] then newStyle else cur)"
    by (simp_all add: ev)
  from Cons.prems have rest: "\<forall>ev \<in> set evs. is_StyleChanged ev" by simp
  from Cons.IH [OF rest st Cons.prems(4)] ev show ?case
    by simp
qed







subsection \<open>The revision store and the host\<close>

lemma undo_top:
  assumes "revisions r \<noteq> []" and "currentIdx r = int (length (revisions r)) - 1"
  shows "snd (undo r) = Some (if 2 \<le> length (revisions r)
                               then revisions r ! (length (revisions r) - 2)
                               else last (revisions r))
       \<and> snd (redo (fst (undo r))) = Some (last (revisions r))
       \<and> current r = Some (last (revisions r))"
proof (cases "2 \<le> length (revisions r)")
  case True
  with assms have "nat (int (length (revisions r)) - 2) = length (revisions r) - 2"
    by simp
  with True assms show ?thesis
    by (simp add: undo_def redo_def current_def Let_def last_conv_nth nat_diff_distrib')
next
  case False
  with assms have "length (revisions r) = 1"
    by (cases "revisions r") (auto simp: not_le)
  with assms show ?thesis
    by (simp add: undo_def redo_def current_def Let_def last_conv_nth)
qed

lemma step_echoed_StyleChanged:
  assumes "mounted w" and "mapStyle (state w) = Some cur"
    and "derive_on_update env \<Longrightarrow> mapStyle_props (props w) = Some cur"
  shows "\<exists>cur'. mounted (step_echoed env (StyleChanged newStyle save) w)
     \<and> mapStyle (state (step_echoed env (StyleChanged newStyle save) w)) = Some cur'
     \<and> (derive_on_update env \<longrightarrow>
          mapStyle_props (props (step_echoed env (StyleChanged newStyle save) w)) = Some cur')
     \<and> revisionStore (step_echoed env (StyleChanged newStyle save) w)
         = (if validate env newStyle = [] then addRevision (revisionStore w) newStyle
            else revisionStore w)"
proof -
  define w' where "w' = step env (StyleChanged newStyle save) w"
  from step_StyleChanged [OF assms, where newStyle = newStyle and save = save]
  have w': "mounted w'" "props w' = props w"
    "revisionStore w' = (if validate env newStyle = [] then addRevision (revisionStore w) newStyle
            else revisionStore w)"
    "mapStyle (state w') = (if derive_on_update env then Some cur
            else Some (if validate env newStyle = [] then newStyle else cur))"
    "last_saved (new_effects w w')
       = (if validate env newStyle = [] \<and> save then Some newStyle else None)"
    by (simp_all add: w'_def)
  show ?thesis
  proof (cases "validate env newStyle = [] \<and> save")
    case True
    with w'(5) have "step_echoed env (StyleChanged newStyle save) w
        = step env (PropsUpdate ((props w')\<lparr>mapStyle_props := Some newStyle\<rparr>)) w'"
      by (simp add: step_echoed_def w'_def Let_def)
    moreover have "mapStyle_props ((props w')\<lparr>mapStyle_props := Some newStyle\<rparr>) = Some newStyle"
      by simp
    note step_PropsUpdate [OF w'(1) this, where env = env]
    ultimately show ?thesis using w'(3) True by simp
  next
    case False
    with w'(5) have "step_echoed env (StyleChanged newStyle save) w = w'"
      by (auto simp: step_echoed_def w'_def Let_def)
    with w' assms(3) show ?thesis by auto
  qed
qed

lemma run_echoed_StyleChanged:
  assumes "\<forall>ev \<in> set evs. is_StyleChanged ev" and "mounted w" and "mapStyle (state w) = Some cur"
    and "derive_on_update env \<Longrightarrow> mapStyle_props (props w) = Some cur"
  shows "\<exists>cur'. mounted (run_echoed env evs w)
       \<and> mapStyle (state (run_echoed env evs w)) = Some cur'
       \<and> (derive_on_update env \<longrightarrow> mapStyle_props (props (run_echoed env evs w)) = Some cur')
       \<and> revisions (revisionStore (run_echoed env evs w))
           = revisions (revisionStore w) @ accepted_styles env evs
       \<and> currentIdx (revisionStore (run_echoed env evs w))
           = (if accepted_styles env evs = [] then currentIdx (revisionStore w)
              else int (length (revisions (revisionStore w) @ accepted_styles env evs)) - 1)"
  using assms
proof (induction evs arbitrary: w cur)
  case Nil
  then show ?case by simp
next
  case (Cons ev evs)
  from Cons.prems obtain newStyle save where ev: "ev = StyleChanged newStyle save"
    by (cases ev) auto
  from step_echoed_StyleChanged [OF Cons.prems(2,3,4), where newStyle = newStyle and save = save]
  obtain cur' where st: "mounted (step_echoed env ev w)"
      "mapStyle (state (step_echoed env ev w)) = Some cur'"
      "derive_on_update env \<Longrightarrow> mapStyle_props (props (step_echoed env ev w)) = Some cur'"
      "revisionStore (step_echoed env ev w)
         = (if validate env newStyle = [] then addRevision (revisionStore w) newStyle
            else revisionStore w)"
    unfolding ev by blast
  from Cons.prems have rest: "\<forall>ev \<in> set evs. is_StyleChanged ev" by simp
  from Cons.IH [OF rest st(1,2,3)] st(4) ev show ?case
    by (auto simp: addRevision_def)
qed

lemma step_echoed_Undo:
  assumes "mounted w" and "derive_on_update env \<Longrightarrow> mapStyle_props (props w) \<noteq> None"
    and "snd (undo (revisionStore w)) = Some s"
  shows "mounted (step_echoed env Undo w)
     \<and> mapStyle (state (step_echoed env Undo w)) = Some s
     \<and> mapStyle_props (props (step_echoed env Undo w)) = Some s
     \<and> revisionStore (step_echoed env Undo w) = fst (undo (revisionStore w))
     \<and> new_effects w (step_echoed env Undo w) = [SnapshotSave (Some s)]"
proof -
  define w' where "w' = step env Undo w"
  from assms have w': "mounted w'" "revisionStore w' = fst (undo (revisionStore w))"
    "effects w' = effects w @ [SnapshotSave (Some s)]"
    by (auto simp: w'_def step_def rerender_frame onUndo_def Let_def split_beta saveStyle_def
        setState_def)
  then have "step_echoed env Undo w
      = step env (PropsUpdate ((props w')\<lparr>mapStyle_props := Some s\<rparr>)) w'"
    by (simp add: step_echoed_def w'_def [symmetric] new_effects_def)
  moreover have "mapStyle_props ((props w')\<lparr>mapStyle_props := Some s\<rparr>) = Some s"
    by simp
  note step_PropsUpdate [OF w'(1) this, where env = env]
  ultimately show ?thesis using w' by (simp add: new_effects_def)
qed

lemma step_echoed_Redo:
  assumes "mounted w" and "derive_on_update env \<Longrightarrow> mapStyle_props (props w) \<noteq> None"
    and "snd (redo (revisionStore w)) = Some s"
  shows "mounted (step_echoed env Redo w)
     \<and> mapStyle (state (step_echoed env Redo w)) = Some s
     \<and> mapStyle_props (props (step_echoed env Redo w)) = Some s
     \<and> revisionStore (step_echoed env Redo w) = fst (redo (revisionStore w))
     \<and> new_effects w (step_echoed env Redo w) = [SnapshotSave (Some s)]"
proof -
  define w' where "w' = step env Redo w"
  from assms have w': "mounted w'" "revisionStore w' = fst (redo (revisionStore w))"
    "effects w' = effects w @ [SnapshotSave (Some s)]"
    by (auto simp: w'_def step_def rerender_frame onRedo_def Let_def split_beta saveStyle_def
        setState_def)
  then have "step_echoed env Redo w
      = step env (PropsUpdate ((props w')\<lparr>mapStyle_props := Some s\<rparr>)) w'"
    by (simp add: step_echoed_def w'_def [symmetric] new_effects_def)
  moreover have "mapStyle_props ((props w')\<lparr>mapStyle_props := Some s\<rparr>) = Some s"
    by simp
  note step_PropsUpdate [OF w'(1) this, where env = env]
  ultimately show ?thesis using w' by (simp add: new_effects_def)
qed

lemma run_StyleChanged_163_store:
  assumes "\<forall>ev \<in> set evs. is_StyleChanged ev" and "mounted w" and "mapStyle (state w) = Some cur"
    and "\<not> derive_on_update env"
  shows "revisions (revisionStore (run env evs w))
           = revisions (revisionStore w) @ accepted_styles env evs
       \<and> currentIdx (revisionStore (run env evs w))
           = (if accepted_styles env evs = [] then currentIdx (revisionStore w)
              else int (length (revisions (revisionStore w) @ accepted_styles env evs)) - 1)"
  using assms
proof (induction evs arbitrary: w cur)
  case Nil
  then show ?case by simp
next
  case (Cons ev evs)
  from Cons.prems obtain newStyle save where ev: "ev = StyleChanged newStyle save"
    by (cases ev) auto
  have "derive_on_update env \<Longrightarrow> mapStyle_props (props w) = Some cur"
    using Cons.prems(4) by simp
  from step_StyleChanged [where env = env and newStyle = newStyle and save = save,
      OF Cons.prems(2,3) this] Cons.prems(4)
  have st: "mounted (step env ev w)"
      "mapStyle (state (step env ev w)) = Some (if validate env newStyle = [] then newStyle else cur)"
      "revisionStore (step env ev w)
         = (if validate env newStyle = [] then addRevision (revisionStore w) newStyle
            else revisionStore w)"
    unfolding ev by simp_all
  from Cons.prems have rest: "\<forall>ev \<in> set evs. is_StyleChanged ev" by simp
  from Cons.IH [OF rest st(1,2) Cons.prems(4)] st(3) ev show ?case
    by (auto simp: addRevision_def)
qed

lemma step_Undo_163:
  assumes "mounted w" and "\<not> derive_on_update env" and "snd (undo (revisionStore w)) = Some s"
  shows "mounted (step env Undo w)
     \<and> mapStyle (state (step env Undo w)) = Some s
     \<and> revisionStore (step env Undo w) = fst (undo (revisionStore w))
     \<and> new_effects w (step env Undo w) = [SnapshotSave (Some s)]"
  using assms
  by (auto simp: step_def rerender_frame onUndo_def Let_def split_beta saveStyle_def
      setState_def new_effects_def)

lemma step_Redo_163:
  assumes "mounted w" and "\<not> derive_on_update env" and "snd (redo (revisionStore w)) = Some s"
  shows "mounted (step env Redo w)
     \<and> mapStyle (state (step env Redo w)) = Some s
     \<and> revisionStore (step env Redo w) = fst (redo (revisionStore w))
     \<and> new_effects w (step env Redo w) = [SnapshotSave (Some s)]"
  using assms
  by (auto simp: step_def rerender_frame onRedo_def Let_def split_beta saveStyle_def
      setState_def new_effects_def)

lemma restores_snapshots_echoed:
  assumes "mounted w" and "derive_on_update env \<Longrightarrow> mapStyle_props (props w) \<noteq> None"
    and "revisions (revisionStore w) = acc" and "acc \<noteq> []"
    and "currentIdx (revisionStore w) = int (length acc) - 1"
  shows "restores_snapshots (step_echoed env) w acc"
proof -
  define prev where "prev = (if 2 \<le> length acc then acc ! (length acc - 2) else last acc)"
  from assms(3,4,5) have "revisions (revisionStore w) \<noteq> []"
    "currentIdx (revisionStore w) = int (length (revisions (revisionStore w))) - 1"
    by simp_all
  from undo_top [OF this] assms(3)
  have top: "snd (undo (revisionStore w)) = Some prev"
    "snd (redo (fst (undo (revisionStore w)))) = Some (last acc)"
    "current (revisionStore w) = Some (last acc)"
    by (simp_all add: prev_def)
  from step_echoed_Undo [OF assms(1,2) top(1)]
  have u: "mounted (step_echoed env Undo w)"
    "mapStyle (state (step_echoed env Undo w)) = Some prev"
    "mapStyle_props (props (step_echoed env Undo w)) = Some prev"
    "revisionStore (step_echoed env Undo w) = fst (undo (revisionStore w))"
    "new_effects w (step_echoed env Undo w) = [SnapshotSave (Some prev)]"
    by simp_all
  from u(3) have pu: "derive_on_update env \<Longrightarrow> mapStyle_props (props (step_echoed env Undo w)) \<noteq> None"
    by simp
  from top(2) u(4) have "snd (redo (revisionStore (step_echoed env Undo w))) = Some (last acc)"
    by simp
  from step_echoed_Redo [OF u(1) pu this]
  have r: "mounted (step_echoed env Redo (step_echoed env Undo w))"
    "mapStyle (state (step_echoed env Redo (step_echoed env Undo w))) = Some (last acc)"
    "new_effects (step_echoed env Undo w) (step_echoed env Redo (step_echoed env Undo w))
       = [SnapshotSave (Some (last acc))]"
    by simp_all
  from top u r show ?thesis
    unfolding restores_snapshots_def Let_def prev_def [symmetric] by simp
qed

lemma restores_snapshots_163:
  assumes "mounted w" and "\<not> derive_on_update env"
    and "revisions (revisionStore w) = acc" and "acc \<noteq> []"
    and "currentIdx (revisionStore w) = int (length acc) - 1"
  shows "restores_snapshots (step env) w acc"
proof -
  define prev where "prev = (if 2 \<le> length acc then acc ! (length acc - 2) else last acc)"
  from assms(3,4,5) have "revisions (revisionStore w) \<noteq> []"
    "currentIdx (revisionStore w) = int (length (revisions (revisionStore w))) - 1"
    by simp_all
  from undo_top [OF this] assms(3)
  have top: "snd (undo (revisionStore w)) = Some prev"
    "snd (redo (fst (undo (revisionStore w)))) = Some (last acc)"
    "current (revisionStore w) = Some (last acc)"
    by (simp_all add: prev_def)
  from step_Undo_163 [OF assms(1,2) top(1)]
  have u: "mounted (step env Undo w)"
    "mapStyle (state (step env Undo w)) = Some prev"
    "revisionStore (step env Undo w) = fst (undo (revisionStore w))"
    "new_effects w (step env Undo w) = [SnapshotSave (Some prev)]"
    by simp_all
  from top(2) u(3) have "snd (redo (revisionStore (step env Undo w))) = Some (last acc)"
    by simp
  from step_Redo_163 [OF u(1) assms(2) this]
  have r: "mounted (step env Redo (step env Undo w))"
    "mapStyle (state (step env Redo (step env Undo w))) = Some (last acc)"
    "new_effects (step env Undo w) (step env Redo (step env Undo w))
       = [SnapshotSave (Some (last acc))]"
    by simp_all
  from top u r show ?thesis
    unfolding restores_snapshots_def Let_def prev_def [symmetric] by simp
qed

subsection \<open>The selection\<close>

lemma indexOfLayer_bound: "indexOfLayer ls layerId = Some i \<Longrightarrow> i < length ls"
  by (induction ls arbitrary: i) (auto split: if_splits)

lemma indexOfLayer_present:
  "layerId \<in> set (map id_layer ls) \<Longrightarrow> \<exists>i. indexOfLayer ls layerId = Some i"
  by (induction ls) auto

lemma in_bounds_length: "in_bounds idx ls \<Longrightarrow> length ls' = length ls \<Longrightarrow> in_bounds idx ls'"
  by (cases idx) (auto simp: in_bounds_def)

lemma onLayersChange_selection:
  assumes "selection_in_bounds (state w)"
    and "mapStyle (state w) \<noteq> None \<Longrightarrow> in_bounds (selectedLayerIndex (state w)) changedLayers"
  shows "selection_in_bounds (state (after (onLayersChange env changedLayers w)))"
proof (cases "mapStyle (state w)")
  case None
  then show ?thesis
    using onStyleChanged_state [of env _ True w]
    by (simp add: onLayersChange_def selection_in_bounds_def)
next
  case (Some ms)
  with assms show ?thesis
    using onStyleChanged_state [of env "ms\<lparr>layers := changedLayers\<rparr>" True w]
    by (simp add: onLayersChange_def selection_in_bounds_def)
qed

lemma dispatch_selection_frame:
  assumes "\<not> is_LayerSelect ev"
  shows "selectedLayerIndex (state (after (dispatch env ev w))) = selectedLayerIndex (state w)"
proof (cases ev)
  case (StyleChanged newStyle save)
  then show ?thesis by (simp add: onStyleChanged_state)
next
  case Undo
  then show ?thesis
    by (simp add: onUndo_def Let_def split_beta saveStyle_def setState_def)
next
  case Redo
  then show ?thesis
    by (simp add: onRedo_def Let_def split_beta saveStyle_def setState_def)
next
  case (PropsUpdate p)
  then show ?thesis by (simp add: receiveProps_def getDerivedStateFromProps_def)
next
  case (LayerSelect layerId)
  with assms show ?thesis by simp
next
  case (LayersChange changedLayers)
  then show ?thesis by (simp add: onLayersChange_def onStyleChanged_state)
next
  case (LayerIdChange oldId newId)
  then show ?thesis
    by (simp add: onLayerIdChange_def onLayersChange_def Let_def onStyleChanged_state
        split: option.splits)
next
  case (LayerChanged l)
  then show ?thesis
    by (simp add: onLayerChanged_def onLayersChange_def Let_def onStyleChanged_state
        split: option.splits)
next
  case InspectModeToggle
  then show ?thesis by (simp add: changeInspectMode_def setState_def)
next
  case DataChange
  then show ?thesis by (simp add: fetchSources_frame)
qed

lemma dispatch_LayerSelect:
  "state (after (dispatch env (LayerSelect layerId) w))
     = (case mapStyle (state w) of None \<Rightarrow> state w
        | Some ms \<Rightarrow> (state w)\<lparr>selectedLayerIndex := indexOfLayer (layers ms) layerId\<rparr>)"
  by (simp add: onLayerSelect_def setState_def split: option.splits)

lemma dispatch_keeps_selection:
  assumes "selection_in_bounds (state w)" and "keeps_selection w ev"
  shows "selection_in_bounds (state (after (dispatch env ev w)))"
proof (cases ev)
  case (StyleChanged newStyle save)
  with assms show ?thesis
    using onStyleChanged_state [of env newStyle save w]
    by (auto simp: selection_in_bounds_def split: option.splits)
next
  case (PropsUpdate p)
  with assms show ?thesis
    by (auto simp: selection_in_bounds_def receiveProps_def getDerivedStateFromProps_def
        split: option.splits)
next
  case (LayerSelect layerId)
  show ?thesis
  proof (cases "mapStyle (state w)")
    case None
    with LayerSelect assms show ?thesis by (simp add: onLayerSelect_def)
  next
    case (Some ms)
    with LayerSelect assms(2) have "layerId \<in> set (map id_layer (layers ms))" by simp
    from indexOfLayer_present [OF this] obtain i where i: "indexOfLayer (layers ms) layerId = Some i"
      by blast
    from indexOfLayer_bound [OF i] i Some LayerSelect show ?thesis
      by (simp add: onLayerSelect_def setState_def selection_in_bounds_def in_bounds_def)
  qed
next
  case (LayersChange changedLayers)
  with assms show ?thesis
    by (simp add: onLayersChange_selection)
next
  case (LayerIdChange oldId newId)
  show ?thesis
  proof (cases "mapStyle (state w)")
    case None
    with LayerIdChange assms show ?thesis by (simp add: onLayerIdChange_def)
  next
    case (Some ms)
    from assms(1) Some have b: "in_bounds (selectedLayerIndex (state w)) (layers ms)"
      by (simp add: selection_in_bounds_def)
    show ?thesis
    proof (cases "indexOfLayer (layers ms) oldId")
      case None
      with Some LayerIdChange show ?thesis
        using onLayersChange_selection [OF assms(1), of "layers ms" env] b
        by (simp add: onLayerIdChange_def)
    next
      case (Some idx)
      with \<open>mapStyle (state w) = Some ms\<close> LayerIdChange show ?thesis
        using onLayersChange_selection [OF assms(1),
            of "(layers ms)[idx := (layers ms ! idx)\<lparr>id_layer := newId\<rparr>]" env]
          in_bounds_length [OF b, of "(layers ms)[idx := (layers ms ! idx)\<lparr>id_layer := newId\<rparr>]"]
        by (simp add: onLayerIdChange_def Let_def)
    qed
  qed
next
  case (LayerChanged l)
  show ?thesis
  proof (cases "mapStyle (state w)")
    case None
    with LayerChanged assms show ?thesis by (simp add: onLayerChanged_def)
  next
    case (Some ms)
    from assms(1) Some have b: "in_bounds (selectedLayerIndex (state w)) (layers ms)"
      by (simp add: selection_in_bounds_def)
    show ?thesis
    proof (cases "indexOfLayer (layers ms) (id_layer l)")
      case None
      with Some LayerChanged show ?thesis
        using onLayersChange_selection [OF assms(1), of "layers ms" env] b
        by (simp add: onLayerChanged_def)
    next
      case (Some idx)
      with \<open>mapStyle (state w) = Some ms\<close> LayerChanged show ?thesis
        using onLayersChange_selection [OF assms(1), of "(layers ms)[idx := l]" env]
          in_bounds_length [OF b, of "(layers ms)[idx := l]"]
        by (simp add: onLayerChanged_def Let_def)
    qed
  qed
next
  case InspectModeToggle
  with assms show ?thesis
    by (simp add: changeInspectMode_def setState_def selection_in_bounds_def split: option.splits)
next
  case DataChange
  with assms show ?thesis
    by (simp add: selection_in_bounds_def fetchSources_frame split: option.splits)
qed (use assms in simp_all)

lemma step_selection_frame:
  "\<not> is_LayerSelect ev \<Longrightarrow>
   selectedLayerIndex (state (step env ev w)) = selectedLayerIndex (state w)"
  by (simp add: step_def rerender_frame dispatch_selection_frame)

lemma step_LayerSelect:
  "mounted w \<Longrightarrow> mapStyle (state w) = Some ms \<Longrightarrow>
   selectedLayerIndex (state (step env (LayerSelect layerId) w)) = indexOfLayer (layers ms) layerId"
  by (simp add: step_def rerender_frame onLayerSelect_def setState_def)

lemma step_keeps_selection:
  assumes "selection_in_bounds (state w)"
    and "derive_on_update env \<and> mounted w \<longrightarrow> mapStyle (state w) = mapStyle_props (props w)"
    and "keeps_selection w ev"
  shows "selection_in_bounds (state (step env ev w))
       \<and> (derive_on_update env \<and> mounted (step env ev w) \<longrightarrow>
            mapStyle (state (step env ev w)) = mapStyle_props (props (step env ev w)))"
proof (cases "mounted w")
  case False
  with assms show ?thesis by (simp add: step_def)
next
  case True
  define w' where "w' = after (dispatch env ev w)"
  have st: "step env ev w = rerender env w'"
    using True by (simp add: step_def w'_def)
  show ?thesis
  proof (cases "derive_on_update env")
    case False
    with dispatch_keeps_selection [OF assms(1,3), of env] show ?thesis
      by (simp add: st rerender_frame w'_def)
  next
    case d: True
    with assms(2) True have same: "mapStyle (state w) = mapStyle_props (props w)"
      by simp
    have doc: "mapStyle (state (step env ev w)) = mapStyle_props (props w')"
      using d by (simp add: st rerender_frame)
    have idx: "selectedLayerIndex (state (step env ev w)) = selectedLayerIndex (state w')"
      by (simp add: st rerender_frame)
    have pr: "props w' = (case ev of PropsUpdate p \<Rightarrow> p | _ \<Rightarrow> props w)"
      using dispatch_frame [of env ev w] by (simp add: w'_def)
    have fr: "\<not> is_LayerSelect ev \<Longrightarrow> selectedLayerIndex (state w') = selectedLayerIndex (state w)"
      unfolding w'_def by (rule dispatch_selection_frame)
    have "selection_in_bounds (state (step env ev w))"
    proof (cases "is_LayerSelect ev")
      case True
      then obtain layerId where ev: "ev = LayerSelect layerId"
        by (cases ev) auto
      have sel: "state w' = (case mapStyle (state w) of None \<Rightarrow> state w
          | Some ms \<Rightarrow> (state w)\<lparr>selectedLayerIndex := indexOfLayer (layers ms) layerId\<rparr>)"
        unfolding w'_def ev by (rule dispatch_LayerSelect)
      show ?thesis
      proof (cases "mapStyle (state w)")
        case None
        with same pr ev show ?thesis
          unfolding selection_in_bounds_def doc by simp
      next
        case (Some ms)
        with ev assms(3) have "layerId \<in> set (map id_layer (layers ms))" by simp
        from indexOfLayer_present [OF this] obtain i
          where i: "indexOfLayer (layers ms) layerId = Some i"
          by blast
        from indexOfLayer_bound [OF i] i Some same pr ev sel show ?thesis
          unfolding selection_in_bounds_def doc idx by (simp add: in_bounds_def)
      qed
    next
      case False
      note keep = fr [OF False]
      show ?thesis
      proof (cases ev)
        case (PropsUpdate p)
        with assms(3) pr show ?thesis
          unfolding selection_in_bounds_def doc idx keep by (simp split: option.splits)
      next
        case Undo
        with assms(3) show ?thesis by simp
      next
        case Redo
        with assms(3) show ?thesis by simp
      next
        case (LayerSelect layerId)
        with False show ?thesis by simp
      next
        case (StyleChanged newStyle save)
        with pr same assms(1) show ?thesis
          unfolding selection_in_bounds_def doc idx keep by simp
      next
        case (LayersChange changedLayers)
        with pr same assms(1) show ?thesis
          unfolding selection_in_bounds_def doc idx keep by simp
      next
        case (LayerIdChange oldId newId)
        with pr same assms(1) show ?thesis
          unfolding selection_in_bounds_def doc idx keep by simp
      next
        case (LayerChanged l)
        with pr same assms(1) show ?thesis
          unfolding selection_in_bounds_def doc idx keep by simp
      next
        case InspectModeToggle
        with pr same assms(1) show ?thesis
          unfolding selection_in_bounds_def doc idx keep by simp
      next
        case DataChange
        with pr same assms(1) show ?thesis
          unfolding selection_in_bounds_def doc idx keep by simp
      qed
    qed
    moreover have "mapStyle (state (step env ev w)) = mapStyle_props (props (step env ev w))"
      using d by (simp add: st rerender_frame)
    ultimately show ?thesis by simp
  qed
qed

lemma run_keeps_selection:
  assumes "selection_in_bounds (state w)"
    and "derive_on_update env \<and> mounted w \<longrightarrow> mapStyle (state w) = mapStyle_props (props w)"
    and "keeps_selection_run env evs w"
  shows "selection_in_bounds (state (run env evs w))"
  using assms
proof (induction evs arbitrary: w)
  case Nil
  then show ?case by simp
next
  case (Cons ev evs)
  from Cons.prems(3) have k: "keeps_selection w ev" "keeps_selection_run env evs (step env ev w)"
    by simp_all
  from step_keeps_selection [OF Cons.prems(1,2) k(1)]
  have "selection_in_bounds (state (step env ev w))"
    "derive_on_update env \<and> mounted (step env ev w) \<longrightarrow>
       mapStyle (state (step env ev w)) = mapStyle_props (props (step env ev w))"
    by simp_all
  from Cons.IH [OF this k(2)] show ?case by simp
qed

section \<open>The claims of the specification\<close>

subsection \<open>Rejected edits\<close>

text \<open>
  C2: when \<open>styleSpec.validate\<close> returns errors for the style passed to
  \<open>onStyleChanged\<close>, the \<open>mapStyle\<close> of the state is left as it was and \<open>errors\<close>
  is exactly the list of the errors' messages. The edit is rejected as a whole: the
  revision store is untouched, and the only calls made are those of \<open>fetchSources\<close>
  (no snapshot is saved, no metadata download started). This holds whether or not
  \<open>fetchSources\<close> throws at the end of the handler.
\<close>

theorem onStyleChanged_rejects_invalid:
  assumes "validate env newStyle \<noteq> []"
  shows "mapStyle (state (after (onStyleChanged env newStyle save w))) = mapStyle (state w)
       \<and> errors (state (after (onStyleChanged env newStyle save w)))
           = map message (validate env newStyle)
       \<and> revisionStore (after (onStyleChanged env newStyle save w)) = revisionStore w
       \<and> list_all is_fetch_effect (new_effects w (after (onStyleChanged env newStyle save w)))"
proof -
  from onStyleChanged_rejected [OF assms, of save w] obtain srcs fx where
    "after (onStyleChanged env newStyle save w) =
       w\<lparr>effects := effects w @ fx,
         state := (state w)\<lparr>errors := map message (validate env newStyle), sources := srcs\<rparr>\<rparr>"
    and "list_all is_fetch_effect fx"
    by blast
  then show ?thesis
    by (simp add: new_effects_def)
qed

theorem onStyleChanged_rejects_invalid_witness:
  "validate env0 style_aa \<noteq> []
   \<and> mapStyle (state (after (onStyleChanged env0 style_aa True (app0 style_a)))) = Some style_a
   \<and> errors (state (after (onStyleChanged env0 style_aa True (app0 style_a))))
       = [''duplicate layer id'']
   \<and> revisions (revisionStore (after (onStyleChanged env0 style_aa True (app0 style_a)))) = []"
proof -
  have h: "validate env0 style_aa \<noteq> []"
    by (simp add: env0_def validate_ids_def style_aa_def style_empty_def)
  have v: "map message (validate env0 style_aa) = [''duplicate layer id'']"
    by (simp add: env0_def validate_ids_def style_aa_def style_empty_def)
  from onStyleChanged_rejects_invalid [OF h, of True "app0 style_a"] h v show ?thesis
    by (simp add: app0_def constructor_def RevisionStore_new_def)
qed

subsection \<open>The revision history\<close>

text \<open>
  C5: in a component that holds a style document, \<open>onStyleChanged\<close> calls
  \<open>addRevision\<close> once, with the new style as it was passed, when validation
  returned no error: the store's snapshots are the former ones followed by that style.
  When validation fails the store is the same as before, in every state.
\<close>

theorem onStyleChanged_revision:
  "(validate env newStyle = [] \<and> mapStyle (state w) \<noteq> None \<longrightarrow>
      revisionStore (after (onStyleChanged env newStyle save w))
        = addRevision (revisionStore w) newStyle
      \<and> revisions (revisionStore (after (onStyleChanged env newStyle save w)))
        = revisions (revisionStore w) @ [newStyle])
   \<and> (validate env newStyle \<noteq> [] \<longrightarrow>
      revisionStore (after (onStyleChanged env newStyle save w)) = revisionStore w)"
  using onStyleChanged_store [of env newStyle save w]
  by (simp add: addRevision_def)

theorem onStyleChanged_revision_witness:
  "validate env0 style_ab = [] \<and> mapStyle (state (app0 style_a)) \<noteq> None
   \<and> revisions (revisionStore (after (onStyleChanged env0 style_ab True (app0 style_a)))) = [style_ab]
   \<and> validate env0 style_aa \<noteq> []
   \<and> revisions (revisionStore (after (onStyleChanged env0 style_aa True (app0 style_a)))) = []"
proof -
  have h: "mapStyle (state (app0 style_a)) \<noteq> None"
    by (simp add: app0_def constructor_def)
  have ok: "validate env0 style_ab = []"
    by (simp add: env0_def validate_ids_def style_ab_def style_empty_def layer_a_def layer_b_def)
  have bad: "validate env0 style_aa \<noteq> []"
    by (simp add: env0_def validate_ids_def style_aa_def style_empty_def)
  have r: "revisions (revisionStore (app0 style_a)) = []"
    by (simp add: app0_def constructor_def RevisionStore_new_def)
  from onStyleChanged_revision [of env0 style_ab "app0 style_a" True]
    onStyleChanged_revision [of env0 style_aa "app0 style_a" True] h ok bad r
  show ?thesis
    by (simp add: addRevision_def)
qed

subsection \<open>Metadata updates\<close>

text \<open>
  C9: in a component that holds a style document, for a style that \<open>onStyleChanged\<close>
  accepts, \<open>updateFonts\<close> is called exactly when the new style's \<open>glyphs\<close> differs from
  that of the style in the state, and \<open>updateIcons\<close> exactly when \<open>sprite\<close> differs;
  \<open>onStyleChanged\<close> itself leaves the \<open>spec\<close> field of the state as it was (the
  callbacks of the downloads change it, later).
\<close>

theorem onStyleChanged_metadata_updates:
  assumes "validate env newStyle = []" and "mapStyle (state w) = Some cur"
  shows "(\<exists>e \<in> set (new_effects w (after (onStyleChanged env newStyle save w))). is_UpdateFonts e)
           = (glyphs newStyle \<noteq> glyphs cur)
       \<and> (\<exists>e \<in> set (new_effects w (after (onStyleChanged env newStyle save w))). is_UpdateIcons e)
           = (sprite newStyle \<noteq> sprite cur)
       \<and> spec (state (after (onStyleChanged env newStyle save w))) = spec (state w)"
proof -
  from onStyleChanged_accepted [OF assms, of save] obtain srcs fx where
    eq: "after (onStyleChanged env newStyle save w) =
      w\<lparr>effects := effects w
           @ (if glyphs newStyle \<noteq> glyphs cur then [UpdateFonts (glyphs newStyle)] else [])
           @ (if sprite newStyle \<noteq> sprite cur then [UpdateIcons (sprite newStyle)] else [])
           @ (if save then [SnapshotSave (Some newStyle)] else []) @ fx,
        revisionStore := addRevision (revisionStore w) newStyle,
        state := (state w)\<lparr>mapStyle := Some newStyle, errors := [], sources := srcs\<rparr>\<rparr>"
    and fx: "list_all is_fetch_effect fx"
    by blast
  have nofonts: "\<not> (\<exists>e \<in> set fx. is_UpdateFonts e)"
  proof
    assume "\<exists>e \<in> set fx. is_UpdateFonts e"
    then obtain e where "e \<in> set fx" "is_UpdateFonts e" by blast
    with fx have "is_fetch_effect e" by (simp add: list_all_iff)
    with \<open>is_UpdateFonts e\<close> show False by (cases e) simp_all
  qed
  have noicons: "\<not> (\<exists>e \<in> set fx. is_UpdateIcons e)"
  proof
    assume "\<exists>e \<in> set fx. is_UpdateIcons e"
    then obtain e where "e \<in> set fx" "is_UpdateIcons e" by blast
    with fx have "is_fetch_effect e" by (simp add: list_all_iff)
    with \<open>is_UpdateIcons e\<close> show False by (cases e) simp_all
  qed
  from nofonts noicons show ?thesis
    unfolding eq new_effects_def by auto
qed

theorem onStyleChanged_metadata_updates_witness:
  "validate env0 style_a_glyphs = []
   \<and> mapStyle (state (app0 style_a)) = Some style_a
   \<and> (\<exists>e \<in> set (new_effects (app0 style_a)
                      (after (onStyleChanged env0 style_a_glyphs True (app0 style_a)))).
         is_UpdateFonts e)
   \<and> \<not> (\<exists>e \<in> set (new_effects (app0 style_a)
                        (after (onStyleChanged env0 style_a_glyphs True (app0 style_a)))).
           is_UpdateIcons e)"
proof -
  have ok: "validate env0 style_a_glyphs = []"
    by (simp add: env0_def validate_ids_def style_a_glyphs_def style_a_def style_empty_def)
  have h: "mapStyle (state (app0 style_a)) = Some style_a"
    by (simp add: app0_def constructor_def)
  have g: "glyphs style_a_glyphs \<noteq> glyphs style_a" "sprite style_a_glyphs = sprite style_a"
    by (simp_all add: style_a_glyphs_def style_a_def style_empty_def)
  from onStyleChanged_metadata_updates [OF ok h, of True] ok h g show ?thesis
    by simp
qed

subsection \<open>Props\<close>

text \<open>
  C8: \<open>getDerivedStateFromProps\<close> puts \<open>props.mapStyle\<close> into the \<open>mapStyle\<close> field of
  the state, whatever the document is (the validator is not among its arguments), and
  leaves \<open>errors\<close>, \<open>infos\<close>, \<open>selectedLayerIndex\<close>, \<open>sources\<close>, \<open>vectorLayers\<close>,
  \<open>inspectModeEnabled\<close> and \<open>spec\<close> as they were.
\<close>

theorem getDerivedStateFromProps_frame:
  "mapStyle (getDerivedStateFromProps p s) = mapStyle_props p
   \<and> errors (getDerivedStateFromProps p s) = errors s
   \<and> infos (getDerivedStateFromProps p s) = infos s
   \<and> selectedLayerIndex (getDerivedStateFromProps p s) = selectedLayerIndex s
   \<and> sources (getDerivedStateFromProps p s) = sources s
   \<and> vectorLayers (getDerivedStateFromProps p s) = vectorLayers s
   \<and> inspectModeEnabled (getDerivedStateFromProps p s) = inspectModeEnabled s
   \<and> spec (getDerivedStateFromProps p s) = spec s"
  by (simp add: getDerivedStateFromProps_def)

subsection \<open>Inspect mode\<close>

text \<open>
  C10: \<open>changeInspectMode\<close> negates \<open>inspectModeEnabled\<close> and changes nothing else, in
  the state or in the rest of the component; called twice, it gives back the component
  it started from.
\<close>

theorem changeInspectMode_involution:
  "inspectModeEnabled (state (changeInspectMode w)) = (\<not> inspectModeEnabled (state w))
   \<and> (state (changeInspectMode w))\<lparr>inspectModeEnabled := inspectModeEnabled (state w)\<rparr> = state w
   \<and> (changeInspectMode w)\<lparr>state := state w\<rparr> = w
   \<and> changeInspectMode (changeInspectMode w) = w"
  by (simp add: changeInspectMode_def setState_def)

subsection \<open>The style document in the state\<close>




subsection \<open>The selected layer\<close>

text \<open>
  C3, as the specification states it, fails: no operation adjusts \<open>selectedLayerIndex\<close>
  when the layer list changes. With the layers \<open>a\<close> and \<open>b\<close>, selecting \<open>b\<close> sets the
  index to 1; \<open>onLayersChange\<close> with the single layer \<open>a\<close> is accepted and saved,
  and once the list of the state is \<open>[a]\<close> the index is still 1, in a list of length
  1. That is so with a host that passes the saved document back as the \<open>mapStyle\<close>
  prop, under either React, and under React 16.3 without such a host as well; from React
  16.4 on the list of the state changes only when the prop does. (\<open>render\<close>, lines
  264-293, reads \<open>layers[selectedLayerIndex]\<close> and shows no layer editor when there is
  no such layer.)
\<close>

theorem selection_stays_in_bounds_counterexample:
  "validate env0 style_a = []
   \<and> selectedLayerIndex (state (run_echoed env0 [LayerSelect ''b'', LayersChange [layer_a]]
                                  (mount env0 (props0 style_ab)))) = Some 1
   \<and> mapStyle (state (run_echoed env0 [LayerSelect ''b'', LayersChange [layer_a]]
                        (mount env0 (props0 style_ab)))) = Some style_a
   \<and> layers style_a = [layer_a]
   \<and> mounted (run_echoed env0 [LayerSelect ''b'', LayersChange [layer_a]]
                (mount env0 (props0 style_ab)))
   \<and> \<not> selection_in_bounds
         (state (run_echoed env0 [LayerSelect ''b'', LayersChange [layer_a]]
                   (mount env0 (props0 style_ab))))
   \<and> \<not> selection_in_bounds
         (state (run_echoed env163 [LayerSelect ''b'', LayersChange [layer_a]]
                   (mount env163 (props0 style_ab))))
   \<and> \<not> selection_in_bounds
         (state (run env163 [LayerSelect ''b'', LayersChange [layer_a]]
                   (mount env163 (props0 style_ab))))
   \<and> \<not> selection_in_bounds
         (state (run env0 [LayerSelect ''b'', LayersChange [layer_a], PropsUpdate (props0 style_a)]
                   (mount env0 (props0 style_ab))))"
  by code_simp

text \<open>
  C3, amended: \<open>selectedLayerIndex\<close> is 0 after the constructor, \<open>onLayerSelect\<close>
  sets it to the position of the layer id in the current list, and no other operation
  changes it. It is within the layer list after mounting and stays within it as long as
  every \<open>onLayerSelect\<close> is given an id that is in the list and every new list (passed
  to \<open>onLayersChange\<close>, within a style passed to \<open>onStyleChanged\<close>, or within a new
  \<open>mapStyle\<close> prop) is empty or longer than the selected index; \<open>onLayerIdChange\<close>
  and \<open>onLayerChanged\<close> keep the length of the list. Undo and redo are not among these
  operations.
\<close>

theorem selection_stays_in_bounds:
  "(keeps_selection_run env evs (mount env p) \<longrightarrow>
      selection_in_bounds (state (run env evs (mount env p))))
   \<and> selectedLayerIndex (state (mount env p)) = Some 0
   \<and> (\<not> is_LayerSelect ev \<longrightarrow>
        selectedLayerIndex (state (step env ev w)) = selectedLayerIndex (state w))
   \<and> (mounted w \<and> mapStyle (state w) = Some ms \<longrightarrow>
        selectedLayerIndex (state (step env (LayerSelect layerId) w))
          = indexOfLayer (layers ms) layerId)"
proof -
  have init: "selection_in_bounds (state (mount env p))"
    "derive_on_update env \<and> mounted (mount env p) \<longrightarrow>
       mapStyle (state (mount env p)) = mapStyle_props (props (mount env p))"
    by (cases "mapStyle_props p";
        simp add: mount_frame constructor_def selection_in_bounds_def in_bounds_def)+
  have "selection_in_bounds (state (run env evs (mount env p)))"
    if "keeps_selection_run env evs (mount env p)"
    using run_keeps_selection [OF init that] .
  moreover have "selectedLayerIndex (state (mount env p)) = Some 0"
    by (simp add: mount_frame constructor_def)
  ultimately show ?thesis
    using step_selection_frame [of ev env w] step_LayerSelect [of w ms env layerId]
    by blast
qed

theorem selection_stays_in_bounds_witness:
  "keeps_selection_run env0
     [LayerSelect ''b'', LayerIdChange ''a'' ''c'', LayersChange [layer_b, layer_a],
      PropsUpdate (props0 style_ab), StyleChanged style_aa True, InspectModeToggle]
     (mount env0 (props0 style_ab))
   \<and> selection_in_bounds
       (state (run env0
         [LayerSelect ''b'', LayerIdChange ''a'' ''c'', LayersChange [layer_b, layer_a],
          PropsUpdate (props0 style_ab), StyleChanged style_aa True, InspectModeToggle]
         (mount env0 (props0 style_ab))))
   \<and> selectedLayerIndex (state (mount env0 (props0 style_ab))) = Some 0
   \<and> \<not> is_LayerSelect (LayersChange [layer_a])
   \<and> selectedLayerIndex (state (step env163 (LayersChange [layer_a])
         (step env163 (LayerSelect ''b'') (mount env163 (props0 style_ab))))) = Some 1
   \<and> mounted (mount env0 (props0 style_ab))
   \<and> mapStyle (state (mount env0 (props0 style_ab))) = Some style_ab
   \<and> selectedLayerIndex (state (step env0 (LayerSelect ''b'') (mount env0 (props0 style_ab))))
       = Some 1"
proof -
  define evs where "evs = [LayerSelect ''b'', LayerIdChange ''a'' ''c'',
      LayersChange [layer_b, layer_a], PropsUpdate (props0 style_ab),
      StyleChanged style_aa True, InspectModeToggle]"
  define w where "w = step env163 (LayerSelect ''b'') (mount env163 (props0 style_ab))"
  have h: "keeps_selection_run env0 evs (mount env0 (props0 style_ab))"
    unfolding evs_def by code_simp
  have n: "\<not> is_LayerSelect (LayersChange [layer_a])"
    by simp
  have m: "mounted (mount env0 (props0 style_ab))"
    "mapStyle (state (mount env0 (props0 style_ab))) = Some style_ab"
    by code_simp+
  have i: "indexOfLayer (layers style_ab) ''b'' = Some 1"
    by code_simp
  have s: "selectedLayerIndex (state w) = Some 1"
    unfolding w_def by code_simp
  from selection_stays_in_bounds [of env0 evs "props0 style_ab" "LayersChange [layer_a]" w]
    selection_stays_in_bounds [of env163 "[]" "props0 style_ab" "LayersChange [layer_a]" w]
    selection_stays_in_bounds [of env0 "[]" "props0 style_ab" Undo "mount env0 (props0 style_ab)"
      style_ab "''b''"]
    h n m i s
  show ?thesis
    unfolding evs_def w_def by simp
qed

subsection \<open>Undo and redo\<close>

text \<open>
  C4, as the specification states it, fails from React 16.4 on when the host does not
  pass the saved snapshot back (the default \<open>onSnapshotSave\<close> does not): after the
  accepted edits \<open>style_a\<close> and \<open>style_ab\<close>, \<open>onUndo\<close> gets \<open>style_a\<close> from the
  revision store and passes it to \<open>setState\<close>, but the state is derived from the props
  before the render, and the component holds \<open>style_empty\<close>, the document of its
  props.
\<close>

theorem undo_redo_restores_counterexample:
  "accepted_styles env0 [StyleChanged style_a True, StyleChanged style_ab True] = [style_a, style_ab]
   \<and> snd (undo (revisionStore (run env0 [StyleChanged style_a True, StyleChanged style_ab True]
                                 (mount env0 (props0 style_empty))))) = Some style_a
   \<and> mounted (step env0 Undo (run env0 [StyleChanged style_a True, StyleChanged style_ab True]
                                (mount env0 (props0 style_empty))))
   \<and> mapStyle (state (step env0 Undo (run env0 [StyleChanged style_a True, StyleChanged style_ab True]
                                        (mount env0 (props0 style_empty))))) = Some style_empty
   \<and> \<not> restores_snapshots (step env0)
         (run env0 [StyleChanged style_a True, StyleChanged style_ab True]
            (mount env0 (props0 style_empty)))
         [style_a, style_ab]"
  by code_simp

text \<open>
  C4, amended: with a host that passes every snapshot it receives through
  \<open>onSnapshotSave\<close> back as the \<open>mapStyle\<close> prop, and under React 16.3 without such a
  host as well: in a component mounted with a style document, after a sequence of
  \<open>onStyleChanged\<close> calls of which at least one was accepted, \<open>onUndo\<close> sets the
  \<open>mapStyle\<close> of the state to the snapshot the revision store returns as the previous
  revision (the accepted style before the last one, or the only one), a following
  \<open>onRedo\<close> sets it back to the last accepted style, and each passes the snapshot it
  restored to \<open>onSnapshotSave\<close>.
\<close>

theorem undo_redo_restores:
  assumes "mapStyle_props p = Some s0"
    and "\<forall>ev \<in> set evs. is_StyleChanged ev"
    and "accepted_styles env evs \<noteq> []"
  shows "restores_snapshots (step_echoed env) (run_echoed env evs (mount env p))
           (accepted_styles env evs)
       \<and> (\<not> derive_on_update env \<longrightarrow>
            restores_snapshots (step env) (run env evs (mount env p)) (accepted_styles env evs))"
proof -
  have init: "mounted (mount env p)" "mapStyle (state (mount env p)) = Some s0"
    "mapStyle_props (props (mount env p)) = Some s0"
    "revisions (revisionStore (mount env p)) = []"
    using assms(1) by (simp_all add: mount_frame constructor_def RevisionStore_new_def)
  from run_echoed_StyleChanged [OF assms(2) init(1,2,3), where env = env] assms(3) init(4)
  obtain cur where w: "mounted (run_echoed env evs (mount env p))"
    "derive_on_update env \<Longrightarrow>
       mapStyle_props (props (run_echoed env evs (mount env p))) = Some cur"
    "revisions (revisionStore (run_echoed env evs (mount env p))) = accepted_styles env evs"
    "currentIdx (revisionStore (run_echoed env evs (mount env p)))
       = int (length (accepted_styles env evs)) - 1"
    by auto
  from w(2) have pw: "derive_on_update env \<Longrightarrow>
      mapStyle_props (props (run_echoed env evs (mount env p))) \<noteq> None"
    by simp
  have echoed: "restores_snapshots (step_echoed env) (run_echoed env evs (mount env p))
           (accepted_styles env evs)"
    using restores_snapshots_echoed [OF w(1) pw w(3) assms(3) w(4)] .
  have "restores_snapshots (step env) (run env evs (mount env p)) (accepted_styles env evs)"
    if d: "\<not> derive_on_update env"
  proof -
    from run_StyleChanged_163 [OF assms(2) init(1,2) d]
    have m: "mounted (run env evs (mount env p))" by simp
    from run_StyleChanged_163_store [OF assms(2) init(1,2) d] assms(3) init(4)
    have st: "revisions (revisionStore (run env evs (mount env p))) = accepted_styles env evs"
      "currentIdx (revisionStore (run env evs (mount env p)))
         = int (length (accepted_styles env evs)) - 1"
      by simp_all
    from restores_snapshots_163 [OF m d st(1) assms(3) st(2)] show ?thesis .
  qed
  with echoed show ?thesis by blast
qed

theorem undo_redo_restores_witness:
  "accepted_styles env0 [StyleChanged style_a True, StyleChanged style_ab True] = [style_a, style_ab]
   \<and> mapStyle (state (step_echoed env0 Undo
         (run_echoed env0 [StyleChanged style_a True, StyleChanged style_ab True]
            (mount env0 (props0 style_empty))))) = Some style_a
   \<and> mapStyle (state (step_echoed env0 Redo (step_echoed env0 Undo
         (run_echoed env0 [StyleChanged style_a True, StyleChanged style_ab True]
            (mount env0 (props0 style_empty)))))) = Some style_ab
   \<and> mapStyle (state (step env163 Undo
         (run env163 [StyleChanged style_a True, StyleChanged style_ab True]
            (mount env163 (props0 style_empty))))) = Some style_a
   \<and> mapStyle (state (step env163 Redo (step env163 Undo
         (run env163 [StyleChanged style_a True, StyleChanged style_ab True]
            (mount env163 (props0 style_empty)))))) = Some style_ab"
proof -
  define w where "w = run_echoed env0 [StyleChanged style_a True, StyleChanged style_ab True]
                        (mount env0 (props0 style_empty))"
  define v where "v = run env163 [StyleChanged style_a True, StyleChanged style_ab True]
                        (mount env163 (props0 style_empty))"
  have acc: "accepted_styles env0 [StyleChanged style_a True, StyleChanged style_ab True]
               = [style_a, style_ab]"
    "accepted_styles env163 [StyleChanged style_a True, StyleChanged style_ab True]
               = [style_a, style_ab]"
    by code_simp+
  have h1: "mapStyle_props (props0 style_empty) = Some style_empty"
    by (simp add: props0_def)
  have h2: "\<forall>ev \<in> set [StyleChanged style_a True, StyleChanged style_ab True]. is_StyleChanged ev"
    by simp
  have h3: "accepted_styles env0 [StyleChanged style_a True, StyleChanged style_ab True] \<noteq> []"
    "accepted_styles env163 [StyleChanged style_a True, StyleChanged style_ab True] \<noteq> []"
    unfolding acc by simp_all
  have d: "\<not> derive_on_update env163"
    by (simp add: env163_def)
  have i: "(if 2 \<le> length [style_a, style_ab]
             then [style_a, style_ab] ! (length [style_a, style_ab] - 2)
             else style_ab) = style_a"
    "last [style_a, style_ab] = style_ab"
    by simp_all
  from undo_redo_restores [OF h1 h2 h3(1), unfolded acc restores_snapshots_def Let_def i,
      folded w_def]
  have a: "mapStyle (state (step_echoed env0 Undo w)) = Some style_a
     \<and> mapStyle (state (step_echoed env0 Redo (step_echoed env0 Undo w))) = Some style_ab"
    by blast
  from undo_redo_restores [OF h1 h2 h3(2), unfolded acc restores_snapshots_def Let_def i,
      folded v_def] d
  have b: "mapStyle (state (step env163 Undo v)) = Some style_a
     \<and> mapStyle (state (step env163 Redo (step env163 Undo v))) = Some style_ab"
    by blast
  from acc(1) a b show ?thesis
    unfolding w_def v_def by blast
qed

subsection \<open>The source-metadata cache\<close>

text \<open>
  C6: \<open>fetchSources\<close> is to add a cache entry for every source of the style that has
  none. With the default \<open>transformRequest\<close> of the component (line 51), which returns
  undefined, it does not: for a style with the vector source \<open>osm\<close> that has a \<open>url\<close>,
  \<open>req.url\<close> throws a TypeError inside the loop, before \<open>setState\<close>; the cache stays
  empty and no fetch is started. (With a \<open>transformRequest\<close> that returns a request,
  and no source named \<open>hasOwnProperty\<close> or \<open>__proto__\<close>, \<open>fetchSources\<close> does add the
  entries: \<open>fetchSources_cache\<close> above.)
\<close>

theorem fetchSources_default_transformRequest_throws:
  "thrown (fetchSources (constructor env0 \<lparr>mapStyle_props = Some style_osm,
                                            transformRequest = transformRequest_default\<rparr>))
     = Some TypeError
   \<and> sources (state (after (fetchSources (constructor env0
         \<lparr>mapStyle_props = Some style_osm, transformRequest = transformRequest_default\<rparr>)))) = []
   \<and> effects (after (fetchSources (constructor env0
         \<lparr>mapStyle_props = Some style_osm, transformRequest = transformRequest_default\<rparr>))) = []"
  by code_simp

text \<open>
  C7: a failed metadata fetch is to be logged and otherwise ignored. The component
  \<open>app0 style_osm\<close> has started the fetch for \<open>osm\<close>; when it fails, the handler
  evaluates the identifier \<open>url\<close>, which nothing binds: it throws a ReferenceError and
  calls \<open>console.error\<close> not at all. The state is left as it was.
\<close>

theorem fetchSources_catch_raises:
  "effects (after (fetchSources (app0 style_osm)))
     = [Fetch ''osm'' \<lparr>url_req = ''https://tiles.example/osm.json'', headers_req = []\<rparr>,
        ConsoleDebug ''Setting sources'']
   \<and> thrown (fetchSources_catch env0 (after (fetchSources (app0 style_osm)))) = Some ReferenceError
   \<and> new_effects (after (fetchSources (app0 style_osm)))
         (after (fetchSources_catch env0 (after (fetchSources (app0 style_osm))))) = []
   \<and> state (after (fetchSources_catch env0 (after (fetchSources (app0 style_osm)))))
       = state (after (fetchSources (app0 style_osm)))"
  by code_simp

end
